theory Spec2Isabelle
  imports Complex_Main "HOL-Library.Word" "HOL-Library.AList"
begin

section \<open>Common ground: paths, numbers, the file system\<close>

text \<open>
  A path is the list of its components: \<open>path.join(d, name)\<close> is \<open>d @ [name]\<close> and
  \<open>path.dirname(p)\<close> is \<open>butlast p\<close>. Directories are implicit (a directory exists when a
  file lies under it), so \<open>fs.mkdir\<close> leaves the file map as it is. Calls into the file
  system are taken to succeed, except \<open>fs.copyFile\<close> and \<open>fs.access\<close> on a file that is
  not there, which is the failure the cache reacts to.
\<close>

type_synonym path = "string list"

text \<open>
  The result of a JavaScript division \<open>a / b\<close> of two finite numbers: the quotient, an
  infinity or NaN when the divisor is zero. Rounding to a double is not modelled.
\<close>

datatype number = Finite rat | PosInfinity | NegInfinity | NaN

definition js_divide :: "rat \<Rightarrow> rat \<Rightarrow> number" where
  "js_divide a b =
     (if b \<noteq> 0 then Finite (a / b)
      else if a > 0 then PosInfinity
      else if a < 0 then NegInfinity
      else NaN)"

text \<open>\<open>Number.prototype.toString()\<close> for an integer, and \<open>padStart(n, '0')\<close>.\<close>

definition digit_char :: "nat \<Rightarrow> char" where
  "digit_char d = char_of (48 + d)"

function toString_nat :: "nat \<Rightarrow> string" where
  "toString_nat n = (if n < 10 then [digit_char n] else toString_nat (n div 10) @ [digit_char (n mod 10)])"
  by pat_completeness auto
termination
  by (relation "measure id") auto

declare toString_nat.simps [simp del]

definition toString_int :: "int \<Rightarrow> string" where
  "toString_int i = (if i < 0 then CHR ''-'' # toString_nat (nat (- i)) else toString_nat (nat i))"

definition padStart :: "nat \<Rightarrow> char \<Rightarrow> string \<Rightarrow> string" where
  "padStart n c s = replicate (n - length s) c @ s"

section \<open>The cache's data (services/cache.ts)\<close>

text \<open>
  \<open>Partial<GenerationOptions>\<close>: the two fields the cache reads, each possibly absent.
  Numbers that the code only stores or compares are rationals or integers here; times are
  the integer milliseconds of \<open>Date.now()\<close>. Where a field's name is taken in HOL or by
  another record, it carries a suffix: \<open>text_e\<close> and \<open>size_e\<close> are the entry's \<open>text\<close> and
  \<open>size\<close>, \<open>totalSize_s\<close> is the \<open>totalSize\<close> of the statistics.
\<close>

record GenerationOptions =
  speed :: "rat option"
  temperature :: "rat option"

record CacheEntry =
  key :: string
  text_e :: string
  voice :: string
  options :: GenerationOptions
  filePath :: path
  createdAt :: int
  accessedAt :: int
  size_e :: nat

text \<open>
  \<open>Record<string, CacheEntry>\<close>: an association list in insertion order, which is the order
  of \<open>Object.values\<close> (the keys are digests of 64 hexadecimal digits, never array indices);
  assigning to a key that is present keeps its position. An object has each key once, so
  the keys of the list are distinct.
\<close>

record CacheIndex =
  entries :: "(string \<times> CacheEntry) list"
  totalSize :: int
  lastCleanup :: int

record CacheStats =
  hits :: nat
  misses :: nat
  totalEntries :: nat
  totalSize_s :: int
  hitRate :: number

record CacheConfig =
  enabled :: bool
  directory :: path
  maxSize :: int
  maxAge :: int
  maxEntries :: int

text \<open>
  What a file holds: raw bytes (audio; not the text of a JSON document), one of the JSON
  documents the cache writes, or some other JSON document, such as \<open>{}\<close>, which has no
  \<open>entries\<close> object.
\<close>

datatype content =
  Bytes "8 word list"
| MetadataJson CacheEntry
| IndexJson CacheIndex
| StatsJson CacheStats
| OtherJson

type_synonym fs = "path \<Rightarrow> content option"

definition writeFile :: "path \<Rightarrow> content \<Rightarrow> fs \<Rightarrow> fs" where
  "writeFile p c files = files(p \<mapsto> c)"

definition rename :: "path \<Rightarrow> path \<Rightarrow> fs \<Rightarrow> fs" where
  "rename a b files = (if a = b then files else (files(b := files a))(a := None))"

definition isUnder :: "path \<Rightarrow> path \<Rightarrow> bool" where
  "isUnder d p = (take (length d) p = d)"

text \<open>\<open>fs.rm(d, { recursive: true, force: true })\<close>: everything at or under \<open>d\<close> goes.\<close>

definition rm_rf :: "path \<Rightarrow> fs \<Rightarrow> fs" where
  "rm_rf d files = (\<lambda>p. if isUnder d p then None else files p)"

section \<open>The audio stitcher (services/audio-stitcher.ts)\<close>

text \<open>
  An \<open>AudioChunk\<close> carries its samples (the finite values of a \<open>Float32Array\<close>, as
  rationals), its sampling rate and its own \<open>save\<close> method, a callback of the generation
  library whose effect on the file system is whatever the chunk brings along.
\<close>

record AudioChunk =
  audio :: "rat list"
  sampling_rate :: int
  save :: "path \<Rightarrow> fs \<Rightarrow> fs"

record StitchOptions =
  outputPath :: path
  keepChunks :: "bool option"
  chunkDir :: "path option"
  tempDir :: "path option"

text \<open>\<open>outputPath_r\<close> is the result's \<open>outputPath\<close>.\<close>

record StitchResult =
  outputPath_r :: path
  chunkPaths :: "path list option"
  totalDuration :: number
  totalSamples :: nat

text \<open>
  What \<open>stitchChunks\<close> can throw: its own two errors, and the RangeError with which
  \<open>Buffer.writeUInt32LE\<close> and \<open>Buffer.writeUInt16LE\<close> reject a value that does not fit
  the field (it carries the value).
\<close>

datatype error =
  NoAudioChunks
| SampleRateMismatch int int
| RangeError int

text \<open>A string option is truthy when it is present and not empty.\<close>

definition truthy :: "'a list option \<Rightarrow> bool" where
  "truthy d = (case d of None \<Rightarrow> False | Some x \<Rightarrow> x \<noteq> [])"

text \<open>The validation loop: the first chunk whose rate differs from the expected one throws.\<close>

fun validateRates :: "int \<Rightarrow> AudioChunk list \<Rightarrow> error option" where
  "validateRates sampleRate [] = None"
| "validateRates sampleRate (chunk # rest) =
     (if sampling_rate chunk \<noteq> sampleRate
      then Some (SampleRateMismatch sampleRate (sampling_rate chunk))
      else validateRates sampleRate rest)"

definition totalSamplesOf :: "AudioChunk list \<Rightarrow> nat" where
  "totalSamplesOf audioChunks = foldl (\<lambda>sum chunk. sum + length (audio chunk)) 0 audioChunks"

text \<open>
  \<open>combinedAudio.set(src, offset)\<close> overwrites the cells from \<open>offset\<close> on. (It raises a
  RangeError when \<open>src\<close> does not fit; the buffer below is sized so that it always does.)
\<close>

definition typed_set :: "rat list \<Rightarrow> rat list \<Rightarrow> nat \<Rightarrow> rat list" where
  "typed_set buf src offset = take offset buf @ src @ drop (offset + length src) buf"

fun copyChunks :: "AudioChunk list \<Rightarrow> rat list \<Rightarrow> nat \<Rightarrow> rat list" where
  "copyChunks [] combinedAudio offset = combinedAudio"
| "copyChunks (chunk # rest) combinedAudio offset =
     copyChunks rest (typed_set combinedAudio (audio chunk) offset) (offset + length (audio chunk))"

definition combineAudio :: "AudioChunk list \<Rightarrow> rat list" where
  "combineAudio audioChunks = copyChunks audioChunks (replicate (totalSamplesOf audioChunks) 0) 0"

text \<open>
  \<open>generateWavBuffer\<close>: 16-bit mono PCM behind the 44-byte header. The samples are
  clamped, scaled and rounded (\<open>Math.round\<close> rounds a half upwards) and stored in an
  \<open>Int16Array\<close>, two bytes each, low byte first. The header fields are written one after
  the other by \<open>writeUInt32LE\<close> and \<open>writeUInt16LE\<close>, each of which throws when its value
  is outside the field's range; the first that throws ends the function.
\<close>

definition int16le :: "int \<Rightarrow> 8 word list" where
  "int16le v = [word_of_int v, word_of_int (v div 256)]"

definition writeUInt16LE :: "int \<Rightarrow> error + 8 word list" where
  "writeUInt16LE v =
     (if 0 \<le> v \<and> v \<le> 65535 then Inr [word_of_int v, word_of_int (v div 256)]
      else Inl (RangeError v))"

definition writeUInt32LE :: "int \<Rightarrow> error + 8 word list" where
  "writeUInt32LE v =
     (if 0 \<le> v \<and> v \<le> 4294967295
      then Inr [word_of_int v, word_of_int (v div 256), word_of_int (v div 65536), word_of_int (v div 16777216)]
      else Inl (RangeError v))"

text \<open>Sequencing of steps that may throw: the first error ends the sequence.\<close>

definition andThen :: "error + 'a \<Rightarrow> ('a \<Rightarrow> error + 'b) \<Rightarrow> error + 'b" where
  "andThen r f = (case r of Inl e \<Rightarrow> Inl e | Inr x \<Rightarrow> f x)"

definition ascii :: "string \<Rightarrow> 8 word list" where
  "ascii s = map (\<lambda>c. word_of_nat (of_char c)) s"

definition pcmSample :: "rat \<Rightarrow> int" where
  "pcmSample x = (let sample = max (- 1) (min 1 x) in \<lfloor>sample * 32767 + 1 / 2\<rfloor>)"

definition generateWavBuffer :: "rat list \<Rightarrow> int \<Rightarrow> error + 8 word list" where
  "generateWavBuffer audioData sampleRate =
     (let bitsPerSample = 16;
          numChannels = 1;
          byteRate = sampleRate * numChannels * (bitsPerSample div 8);
          blockAlign = numChannels * (bitsPerSample div 8);
          pcmBuffer = concat (map (\<lambda>x. int16le (pcmSample x)) audioData)
      in andThen (writeUInt32LE (36 + int (length pcmBuffer))) (\<lambda>riffSize.
         andThen (writeUInt32LE 16) (\<lambda>fmtSize.
         andThen (writeUInt16LE 1) (\<lambda>audioFormat.
         andThen (writeUInt16LE numChannels) (\<lambda>channels.
         andThen (writeUInt32LE sampleRate) (\<lambda>rate.
         andThen (writeUInt32LE byteRate) (\<lambda>bytesPerSecond.
         andThen (writeUInt16LE blockAlign) (\<lambda>align.
         andThen (writeUInt16LE bitsPerSample) (\<lambda>bits.
         andThen (writeUInt32LE (int (length pcmBuffer))) (\<lambda>dataSize.
         Inr (ascii ''RIFF'' @ riffSize @ ascii ''WAVE''
              @ ascii ''fmt '' @ fmtSize @ audioFormat @ channels
              @ rate @ bytesPerSecond @ align @ bits
              @ ascii ''data'' @ dataSize @ pcmBuffer)))))))))))"

fun saveIndividualChunksFrom :: "nat \<Rightarrow> AudioChunk list \<Rightarrow> path \<Rightarrow> fs \<Rightarrow> path list \<times> fs" where
  "saveIndividualChunksFrom i [] dir files = ([], files)"
| "saveIndividualChunksFrom i (chunk # rest) dir files =
     (let chunkNumber = padStart 3 (CHR ''0'') (toString_nat (i + 1));
          chunkPath = dir @ [''chunk_'' @ chunkNumber @ ''.wav''];
          (paths, files') = saveIndividualChunksFrom (i + 1) rest dir (save chunk chunkPath files)
      in (chunkPath # paths, files'))"

definition saveIndividualChunks :: "AudioChunk list \<Rightarrow> path \<Rightarrow> fs \<Rightarrow> path list \<times> fs" where
  "saveIndividualChunks audioChunks dir files = saveIndividualChunksFrom 0 audioChunks dir files"

text \<open>
  \<open>AudioStitcher.stitchChunks\<close>. \<open>now\<close> is the \<open>Date.now()\<close> that names the temporary
  file. The result is the thrown error or the \<open>StitchResult\<close>, with the file system after.
  The WAV buffer is generated before anything is created or written, so an error of
  \<open>generateWavBuffer\<close> leaves the file system as it was.
\<close>

definition writeStitched :: "8 word list \<Rightarrow> StitchOptions \<Rightarrow> int \<Rightarrow> fs \<Rightarrow> fs" where
  "writeStitched wavBuffer opts now files =
     (if truthy (tempDir opts)
      then (let tempFilePath = the (tempDir opts) @ [''stitched_'' @ toString_int now @ ''.wav'']
            in rename tempFilePath (outputPath opts) (writeFile tempFilePath (Bytes wavBuffer) files))
      else writeFile (outputPath opts) (Bytes wavBuffer) files)"

definition stitchChunks :: "AudioChunk list \<Rightarrow> StitchOptions \<Rightarrow> int \<Rightarrow> fs \<Rightarrow> (error + StitchResult) \<times> fs" where
  "stitchChunks audioChunks opts now files =
     (case audioChunks of
        [] \<Rightarrow> (Inl NoAudioChunks, files)
      | [only] \<Rightarrow>
          (Inr \<lparr> outputPath_r = outputPath opts, chunkPaths = None,
                 totalDuration = js_divide (of_nat (length (audio only))) (of_int (sampling_rate only)),
                 totalSamples = length (audio only) \<rparr>,
           save only (outputPath opts) files)
      | first # _ \<Rightarrow>
          (let sampleRate = sampling_rate first in
           case validateRates sampleRate audioChunks of
             Some e \<Rightarrow> (Inl e, files)
           | None \<Rightarrow>
               (let total = totalSamplesOf audioChunks;
                    combinedAudio = combineAudio audioChunks
                in case generateWavBuffer combinedAudio sampleRate of
                     Inl e \<Rightarrow> (Inl e, files)
                   | Inr wavBuffer \<Rightarrow>
                       (let files1 = writeStitched wavBuffer opts now files;
                            (paths, files2) =
                              (if keepChunks opts = Some True \<and> truthy (chunkDir opts)
                               then (let (ps, files') =
                                           saveIndividualChunks audioChunks (the (chunkDir opts)) files1
                                     in (Some ps, files'))
                               else (None, files1))
                        in (Inr \<lparr> outputPath_r = outputPath opts, chunkPaths = paths,
                                  totalDuration = js_divide (of_nat total) (of_int sampleRate),
                                  totalSamples = total \<rparr>,
                            files2)))))"

section \<open>The text segmenter (utils.ts, StringUtils)\<close>

text \<open>
  Strings are lists of 8-bit characters, so a text is taken to consist of code units
  below 256. \<open>isSpace\<close> is what \<open>\s\<close> and \<open>trim()\<close> treat as white space in that range:
  tab, line feed, vertical tab, form feed, carriage return, space, no-break space.
\<close>

definition isSpace :: "char \<Rightarrow> bool" where
  "isSpace c = (of_char c \<in> {9::nat, 10, 11, 12, 13, 32, 160})"

definition trim :: "string \<Rightarrow> string" where
  "trim s = rev (dropWhile isSpace (rev (dropWhile isSpace s)))"

text \<open>
  A pattern is given by its matcher: the length of the match that starts at the head of
  the remaining input, if there is one. None of the patterns below matches the empty
  string.

  \<open>/[.!?;:]+(?:\s|$)|\n\n+/\<close>: a maximal run of sentence punctuation followed by one white
  space character (which the match includes) or by the end of the input; a shorter run
  cannot match, since it is followed by punctuation. Otherwise two or more line feeds.
\<close>

definition isSentencePunct :: "char \<Rightarrow> bool" where
  "isSentencePunct c = (c \<in> {CHR ''.'', CHR ''!'', CHR ''?'', CHR '';'', CHR '':''})"

definition sentencePattern :: "string \<Rightarrow> nat option" where
  "sentencePattern s =
     (let run = takeWhile isSentencePunct s in
      if run \<noteq> [] then
        (case dropWhile isSentencePunct s of
           [] \<Rightarrow> Some (length run)
         | c # _ \<Rightarrow> if isSpace c then Some (length run + 1) else None)
      else
        (let newlines = takeWhile (\<lambda>c. c = CHR 0x0A) s in
         if 2 \<le> length newlines then Some (length newlines) else None))"

text \<open>\<open>/,\s+/\<close>: a comma and the white space after it, at least one character of it.\<close>

definition commaPattern :: "string \<Rightarrow> nat option" where
  "commaPattern s =
     (case s of
        [] \<Rightarrow> None
      | c # rest \<Rightarrow>
          (if c = CHR '','' \<and> takeWhile isSpace rest \<noteq> []
           then Some (1 + length (takeWhile isSpace rest)) else None))"

text \<open>
  One left-to-right scan yields both \<open>text.split(pattern)\<close> (the pieces between the
  matches, one more than there are matches) and \<open>text.match(pattern)\<close> with the \<open>g\<close> flag
  (the matches): both try the pattern at each position in turn and resume after a match.
  \<open>part\<close> collects the piece since the last match.
\<close>

function scanPattern :: "(string \<Rightarrow> nat option) \<Rightarrow> string \<Rightarrow> string \<Rightarrow> string list \<times> string list" where
  "scanPattern pat [] part = ([part], [])"
| "scanPattern pat (c # cs) part =
     (case pat (c # cs) of
        Some (Suc n) \<Rightarrow>
          (let (parts, delimiters) = scanPattern pat (drop n cs) []
           in (part # parts, take (Suc n) (c # cs) # delimiters))
      | _ \<Rightarrow> scanPattern pat cs (part @ [c]))"
  by pat_completeness auto
termination
  by (relation "measure (\<lambda>(pat, s, part). length s)") auto

definition split_re :: "(string \<Rightarrow> nat option) \<Rightarrow> string \<Rightarrow> string list" where
  "split_re pat s = fst (scanPattern pat s [])"

definition match_re :: "(string \<Rightarrow> nat option) \<Rightarrow> string \<Rightarrow> string list" where
  "match_re pat s = snd (scanPattern pat s [])"

text \<open>\<open>text.split(' ')\<close>: every single space separates, so two spaces give an empty word.\<close>

fun splitOnSpace :: "string \<Rightarrow> string \<Rightarrow> string list" where
  "splitOnSpace [] word = [word]"
| "splitOnSpace (c # cs) word =
     (if c = CHR '' '' then word # splitOnSpace cs [] else splitOnSpace cs (word @ [c]))"

text \<open>\<open>splitByWords\<close>: the loop over the words, then the last chunk.\<close>

fun splitByWordsLoop :: "int \<Rightarrow> string list \<Rightarrow> string list \<Rightarrow> string \<Rightarrow> string list \<times> string" where
  "splitByWordsLoop maxChunkSize [] chunks currentChunk = (chunks, currentChunk)"
| "splitByWordsLoop maxChunkSize (word # rest) chunks currentChunk =
     (let potentialLength = int (length currentChunk) + (if currentChunk \<noteq> [] then 1 else 0) + int (length word) in
      if potentialLength \<le> maxChunkSize
      then splitByWordsLoop maxChunkSize rest chunks (currentChunk @ (if currentChunk \<noteq> [] then '' '' else []) @ word)
      else if currentChunk \<noteq> []
      then splitByWordsLoop maxChunkSize rest (chunks @ [currentChunk]) word
      else splitByWordsLoop maxChunkSize rest (chunks @ [word]) currentChunk)"

definition splitByWords :: "string \<Rightarrow> int \<Rightarrow> string list" where
  "splitByWords s maxChunkSize =
     (let (chunks, currentChunk) = splitByWordsLoop maxChunkSize (splitOnSpace s []) [] []
      in if currentChunk \<noteq> [] then chunks @ [currentChunk] else chunks)"

text \<open>
  \<open>xs.slice(0, -1)\<close> is \<open>butlast xs\<close>; \<open>xs[xs.length - 1] ?? ''\<close> is the last element, or
  the empty string when there is none.
\<close>

definition lastOrEmpty :: "string list \<Rightarrow> string" where
  "lastOrEmpty xs = (if xs = [] then [] else last xs)"

fun splitLongSentenceLoop :: "int \<Rightarrow> string list \<Rightarrow> string list \<Rightarrow> string \<Rightarrow> string list \<times> string" where
  "splitLongSentenceLoop maxChunkSize [] chunks currentChunk = (chunks, currentChunk)"
| "splitLongSentenceLoop maxChunkSize (part # rest) chunks currentChunk =
     (let potentialLength = int (length currentChunk) + (if currentChunk \<noteq> [] then 2 else 0) + int (length part) in
      if potentialLength \<le> maxChunkSize
      then splitLongSentenceLoop maxChunkSize rest chunks (currentChunk @ (if currentChunk \<noteq> [] then '', '' else []) @ part)
      else if currentChunk \<noteq> []
      then splitLongSentenceLoop maxChunkSize rest (chunks @ [currentChunk]) part
      else (let wordChunks = splitByWords part maxChunkSize
            in splitLongSentenceLoop maxChunkSize rest (chunks @ butlast wordChunks) (lastOrEmpty wordChunks)))"

definition splitLongSentence :: "string \<Rightarrow> int \<Rightarrow> string list" where
  "splitLongSentence sentence maxChunkSize =
     (let commaParts = split_re commaPattern sentence in
      if length commaParts > 1
      then (let (chunks, currentChunk) = splitLongSentenceLoop maxChunkSize commaParts [] []
            in if currentChunk \<noteq> [] then chunks @ [currentChunk] else chunks)
      else splitByWords sentence maxChunkSize)"

text \<open>
  The sentences: piece \<open>i\<close> of the split, trimmed, with match \<open>i\<close> (trimmed) behind it;
  an empty piece is skipped together with its match.
\<close>

fun reconstructSentences :: "string list \<Rightarrow> string list \<Rightarrow> string list" where
  "reconstructSentences [] delimiters = []"
| "reconstructSentences (p # parts) delimiters =
     (let part = trim p;
          delimiter = (case delimiters of [] \<Rightarrow> [] | d # _ \<Rightarrow> d)
      in (if length part > 0 then [part @ trim delimiter] else [])
         @ reconstructSentences parts (drop 1 delimiters))"

fun packSentences :: "int \<Rightarrow> string list \<Rightarrow> string list \<Rightarrow> string \<Rightarrow> string list \<times> string" where
  "packSentences maxChunkSize [] chunks currentChunk = (chunks, currentChunk)"
| "packSentences maxChunkSize (sentence # rest) chunks currentChunk =
     (let trimmedSentence = trim sentence;
          potentialLength = int (length currentChunk) + (if currentChunk \<noteq> [] then 1 else 0)
                            + int (length trimmedSentence) in
      if potentialLength \<le> maxChunkSize
      then packSentences maxChunkSize rest chunks
             (currentChunk @ (if currentChunk \<noteq> [] then '' '' else []) @ trimmedSentence)
      else if currentChunk \<noteq> []
      then packSentences maxChunkSize rest (chunks @ [currentChunk]) trimmedSentence
      else (let subChunks = splitLongSentence trimmedSentence maxChunkSize
            in packSentences maxChunkSize rest (chunks @ butlast subChunks) (lastOrEmpty subChunks)))"

definition splitTextIntoChunks :: "string \<Rightarrow> int \<Rightarrow> string list" where
  "splitTextIntoChunks txt maxChunkSize =
     (if int (length txt) \<le> maxChunkSize then [txt]
      else
        (let parts = split_re sentencePattern txt;
             delimiters = match_re sentencePattern txt;
             sentences = reconstructSentences parts delimiters;
             (chunks, currentChunk) = packSentences maxChunkSize sentences [] [];
             chunks' = (if trim currentChunk \<noteq> [] then chunks @ [currentChunk] else chunks)
         in filter (\<lambda>chunk. length (trim chunk) > 0) chunks'))"

section \<open>The cache service (services/cache.ts)\<close>

text \<open>
  The service's fields, together with the file system it works on. The constructor's
  merging of defaults is the caller's business: \<open>config\<close> is the merged configuration.
  Every \<open>Date.now()\<close> of an operation is the operation's argument \<open>now\<close>.
\<close>

record CacheService =
  config :: CacheConfig
  index :: CacheIndex
  stats :: CacheStats
  disk :: fs

definition indexPath :: "CacheService \<Rightarrow> path" where
  "indexPath s = directory (config s) @ [''index.json'']"

definition statsPath :: "CacheService \<Rightarrow> path" where
  "statsPath s = directory (config s) @ [''stats.json'']"

definition entriesDir :: "CacheService \<Rightarrow> path" where
  "entriesDir s = directory (config s) @ [''entries'']"

definition emptyStats :: CacheStats where
  "emptyStats = \<lparr> hits = 0, misses = 0, totalEntries = 0, totalSize_s = 0, hitRate = Finite 0 \<rparr>"

definition new_CacheService :: "CacheConfig \<Rightarrow> int \<Rightarrow> fs \<Rightarrow> CacheService" where
  "new_CacheService cfg now files =
     \<lparr> config = cfg,
       index = \<lparr> entries = [], totalSize = 0, lastCleanup = now \<rparr>,
       stats = emptyStats,
       disk = files \<rparr>"

text \<open>
  \<open>x || d\<close> on an optional number: the default replaces a missing value and also zero.
  The key is the SHA-256 digest of the JSON text of the normalised triple; the digest of
  that text is the parameter \<open>digest\<close>.
\<close>

definition orDefault :: "rat option \<Rightarrow> rat \<Rightarrow> rat" where
  "orDefault x d = (case x of None \<Rightarrow> d | Some v \<Rightarrow> if v = 0 then d else v)"

definition generateCacheKey ::
  "(string \<times> string \<times> rat \<times> rat \<Rightarrow> string) \<Rightarrow> string \<Rightarrow> string \<Rightarrow> GenerationOptions \<Rightarrow> string" where
  "generateCacheKey digest txt v opts =
     digest (txt, v, orDefault (speed opts) 1, orDefault (temperature opts) (7 / 10))"

definition saveIndex :: "CacheService \<Rightarrow> CacheService" where
  "saveIndex s = s\<lparr> disk := writeFile (indexPath s) (IndexJson (index s)) (disk s) \<rparr>"

text \<open>\<open>saveStats\<close> is started without being awaited; the model performs the write at once.\<close>

definition saveStats :: "CacheService \<Rightarrow> CacheService" where
  "saveStats s = s\<lparr> disk := writeFile (statsPath s) (StatsJson (stats s)) (disk s) \<rparr>"

definition updateStats :: "CacheService \<Rightarrow> CacheService" where
  "updateStats s =
     saveStats (s\<lparr> stats := (stats s)
       \<lparr> totalEntries := length (entries (index s)),
         totalSize_s := totalSize (index s),
         hitRate := (if hits (stats s) + misses (stats s) > 0
                     then js_divide (of_nat (hits (stats s))) (of_nat (hits (stats s) + misses (stats s)))
                     else Finite 0) \<rparr> \<rparr>)"

definition getStats :: "CacheService \<Rightarrow> CacheStats" where
  "getStats s = stats s"

definition deleteEntry :: "string \<Rightarrow> CacheService \<Rightarrow> CacheService" where
  "deleteEntry k s =
     (case map_of (entries (index s)) k of
        None \<Rightarrow> s
      | Some entry \<Rightarrow>
          s\<lparr> disk := rm_rf (butlast (filePath entry)) (disk s),
             index := (index s)\<lparr> totalSize := totalSize (index s) - int (size_e entry),
                                  entries := AList.delete k (entries (index s)) \<rparr> \<rparr>)"

text \<open>Deleting the entries of a list one after the other, by their \<open>key\<close> fields.\<close>

abbreviation deleteEntries :: "CacheService \<Rightarrow> CacheEntry list \<Rightarrow> CacheService" where
  "deleteEntries s es \<equiv> foldl (\<lambda>acc entry. deleteEntry (key entry) acc) s es"

text \<open>
  \<open>enforceConstraints\<close>. The array \<open>entries\<close> is local: \<open>shift()\<close> takes its head. The
  sort is stable, as \<open>Array.prototype.sort\<close> is. The size loop ends when the array is
  empty; the count loop has no such test, so on an empty array it spins for as long as
  \<open>0 > maxEntries\<close>: it is a partial function, \<open>None\<close> standing for not returning.
\<close>

fun sizeLoop :: "CacheEntry list \<Rightarrow> CacheService \<Rightarrow> CacheEntry list \<times> CacheService" where
  "sizeLoop [] s = ([], s)"
| "sizeLoop (entry # rest) s =
     (if totalSize (index s) > maxSize (config s)
      then sizeLoop rest (deleteEntry (key entry) s)
      else (entry # rest, s))"

partial_function (option) countLoop :: "CacheEntry list \<Rightarrow> CacheService \<Rightarrow> CacheService option" where
  "countLoop es s =
     (if int (length es) > maxEntries (config s)
      then (case es of
              [] \<Rightarrow> countLoop es s
            | entry # rest \<Rightarrow> countLoop rest (deleteEntry (key entry) s))
      else Some s)"

declare countLoop.simps [code]

definition enforceConstraints :: "CacheService \<Rightarrow> CacheService option" where
  "enforceConstraints s =
     (let es = map snd (entries (index s));
          (es1, s1) = (if totalSize (index s) > maxSize (config s)
                       then sizeLoop (sort_key accessedAt es) s
                       else (es, s))
      in if int (length es1) > maxEntries (config s1)
         then countLoop (sort_key accessedAt es1) s1
         else Some s1)"

text \<open>
  \<open>get\<close>: the path of the cached file, or \<open>None\<close> for \<open>null\<close>, and the service after.
\<close>

definition get ::
  "(string \<times> string \<times> rat \<times> rat \<Rightarrow> string) \<Rightarrow> string \<Rightarrow> string \<Rightarrow> GenerationOptions \<Rightarrow> int
     \<Rightarrow> CacheService \<Rightarrow> path option \<times> CacheService" where
  "get digest txt v opts now s =
     (if \<not> enabled (config s) then (None, s)
      else
        (let k = generateCacheKey digest txt v opts in
         case map_of (entries (index s)) k of
           None \<Rightarrow> (None, updateStats (s\<lparr> stats := (stats s)\<lparr> misses := misses (stats s) + 1 \<rparr> \<rparr>))
         | Some entry \<Rightarrow>
             (if now - createdAt entry > maxAge (config s)
              then (let s1 = deleteEntry k s
                    in (None, updateStats (s1\<lparr> stats := (stats s1)\<lparr> misses := misses (stats s1) + 1 \<rparr> \<rparr>)))
              else
                (case disk s (filePath entry) of
                   Some _ \<Rightarrow>
                     (let s1 = saveIndex (s\<lparr> index := (index s)
                                 \<lparr> entries := AList.update k (entry\<lparr> accessedAt := now \<rparr>) (entries (index s)) \<rparr> \<rparr>)
                      in (Some (filePath entry),
                          updateStats (s1\<lparr> stats := (stats s1)\<lparr> hits := hits (stats s1) + 1 \<rparr> \<rparr>)))
                 | None \<Rightarrow>
                     (let s1 = deleteEntry k s
                      in (None, updateStats (s1\<lparr> stats := (stats s1)\<lparr> misses := misses (stats s1) + 1 \<rparr> \<rparr>)))))))"

text \<open>
  \<open>set\<close> (here \<open>set_cache\<close>). \<open>fs.stat(...).size\<close> is the number of bytes of a byte file; the length of the
  text of a JSON document is the parameter \<open>jsonSize\<close>. When the source file is missing
  \<open>copyFile\<close> throws, the \<open>catch\<close> logs a warning, and nothing has changed. The result is
  \<open>None\<close> when the call does not return (see \<open>countLoop\<close>).
\<close>

definition fileSize :: "(content \<Rightarrow> nat) \<Rightarrow> content \<Rightarrow> nat" where
  "fileSize jsonSize c = (case c of Bytes bs \<Rightarrow> length bs | _ \<Rightarrow> jsonSize c)"

definition set_cache ::
  "(string \<times> string \<times> rat \<times> rat \<Rightarrow> string) \<Rightarrow> (content \<Rightarrow> nat) \<Rightarrow> string \<Rightarrow> string \<Rightarrow> path
     \<Rightarrow> GenerationOptions \<Rightarrow> int \<Rightarrow> CacheService \<Rightarrow> CacheService option" where
  "set_cache digest jsonSize txt v audioFilePath opts now s =
     (if \<not> enabled (config s) then Some s
      else
        (let k = generateCacheKey digest txt v opts;
             entryDir = entriesDir s @ [k];
             cachedFilePath = entryDir @ [''audio.wav''];
             metadataPath = entryDir @ [''metadata.json'']
         in case disk s audioFilePath of
              None \<Rightarrow> Some s
            | Some payload \<Rightarrow>
                (let s1 = s\<lparr> disk := (disk s)(cachedFilePath \<mapsto> payload) \<rparr>;
                     entry = \<lparr> key = k, text_e = txt, voice = v, options = opts,
                               filePath = cachedFilePath, createdAt = now, accessedAt = now,
                               size_e = fileSize jsonSize payload \<rparr>;
                     s2 = s1\<lparr> disk := writeFile metadataPath (MetadataJson entry) (disk s1) \<rparr>;
                     s3 = s2\<lparr> index := (index s2)
                            \<lparr> entries := AList.update k entry (entries (index s2)),
                              totalSize := totalSize (index s2) + int (fileSize jsonSize payload) \<rparr> \<rparr>
                 in map_option (\<lambda>s4. updateStats (saveIndex s4)) (enforceConstraints s3))))"

text \<open>
  \<open>cleanup\<close>, for an index that is an index: the expired entries go, in index order.
\<close>

definition cleanup :: "int \<Rightarrow> CacheService \<Rightarrow> CacheService" where
  "cleanup now s =
     (let s1 = foldl (\<lambda>acc entry. if now - createdAt entry > maxAge (config acc)
                                    then deleteEntry (key entry) acc else acc)
                     s (map snd (entries (index s)))
      in saveIndex (s1\<lparr> index := (index s1)\<lparr> lastCleanup := now \<rparr> \<rparr>))"

text \<open>
  \<open>loadIndex\<close>: whatever \<open>JSON.parse\<close> makes of the snapshot's text becomes
  \<open>this.index\<close>; only a missing file or a text that is not JSON leaves the index as it
  was. The second component says that the document adopted is not an index (it is
  another JSON document, without an \<open>entries\<close> object). Such a document makes \<open>cleanup\<close>
  throw a TypeError at \<open>Object.values(this.index.entries)\<close>, which \<open>initialize\<close> catches
  by disabling the cache; from then on every operation returns at once, so that the
  document in \<open>this.index\<close> is never read, and the model leaves the field as it was.

  \<open>loadStats\<close> adopts a statistics snapshot. (Another JSON document in its place would
  be adopted too and leave counters that are not numbers, which \<open>CacheStats\<close> cannot
  hold: the file at \<open>statsPath\<close> is taken to be a statistics snapshot, a byte file or
  absent.)
\<close>

definition loadIndex :: "CacheService \<Rightarrow> CacheService \<times> bool" where
  "loadIndex s =
     (case disk s (indexPath s) of
        None \<Rightarrow> (s, False)
      | Some (Bytes _) \<Rightarrow> (s, False)
      | Some (IndexJson idx) \<Rightarrow> (s\<lparr> index := idx \<rparr>, False)
      | Some _ \<Rightarrow> (s, True))"

definition loadStats :: "CacheService \<Rightarrow> CacheService" where
  "loadStats s = (case disk s (statsPath s) of Some (StatsJson st) \<Rightarrow> s\<lparr> stats := st \<rparr> | _ \<Rightarrow> s)"

definition initialize :: "int \<Rightarrow> CacheService \<Rightarrow> CacheService" where
  "initialize now s =
     (if \<not> enabled (config s) then s
      else
        (let (s1, notAnIndex) = loadIndex s;
             s2 = loadStats s1
         in if notAnIndex
            then s2\<lparr> config := (config s2)\<lparr> enabled := False \<rparr> \<rparr>
            else cleanup now s2))"

definition clear :: "int \<Rightarrow> CacheService \<Rightarrow> CacheService" where
  "clear now s =
     (if \<not> enabled (config s) then s
      else initialize now
             (s\<lparr> disk := rm_rf (directory (config s)) (disk s),
                 index := \<lparr> entries = [], totalSize = 0, lastCleanup = now \<rparr>,
                 stats := emptyStats \<rparr>))"

section \<open>The audio service's streaming path (services/audio.ts)\<close>

text \<open>
  \<open>streamAudio\<close>. The engine is absent before \<open>initialize()\<close>; when present,
  \<open>generateStream\<close> is a function from the text, the voice and the effective speed and
  temperature to the \<open>audio\<close> objects of the chunks it yields, in order, which is what
  the loop collects. The spread \<open>...options\<close> comes last, so a given option wins over
  the default even when it is zero.
\<close>

datatype audio_error = NotInitialized

record AudioMetadata =
  duration :: rat
  sampleRate :: int
  samples :: nat
  generationTime :: rat
  realTimeFactor :: rat

record AudioGenerationResult =
  audioPath :: path
  metadata :: AudioMetadata
  fromCache :: bool

definition streamAudio ::
  "(string \<Rightarrow> string \<Rightarrow> rat \<Rightarrow> rat \<Rightarrow> AudioChunk list) option \<Rightarrow> string \<Rightarrow> string \<Rightarrow> path
     \<Rightarrow> GenerationOptions \<Rightarrow> fs \<Rightarrow> (audio_error + AudioGenerationResult) \<times> fs" where
  "streamAudio tts txt v out opts files =
     (case tts of
        None \<Rightarrow> (Inl NotInitialized, files)
      | Some generateStream \<Rightarrow>
          (let chunks = generateStream txt v
                          (case speed opts of None \<Rightarrow> 1 | Some x \<Rightarrow> x)
                          (case temperature opts of None \<Rightarrow> 7 / 10 | Some x \<Rightarrow> x);
               files' = (if length chunks > 0 then save (last chunks) out files else files)
           in (Inr \<lparr> audioPath = out,
                     metadata = \<lparr> duration = 0, sampleRate = 22050, samples = 0,
                                  generationTime = 0, realTimeFactor = 0 \<rparr>,
                     fromCache = False \<rparr>,
               files')))"

text \<open>
  The audio object of the generation library, as far as \<open>save\<close> goes: it writes its own
  samples as an audio file of its own rate. The encoding is the library's; the one of
  \<open>generateWavBuffer\<close> stands in for it.
\<close>

definition rawAudio :: "rat list \<Rightarrow> int \<Rightarrow> AudioChunk" where
  "rawAudio xs rate =
     \<lparr> audio = xs, sampling_rate = rate,
       save = (\<lambda>p files. case generateWavBuffer xs rate of
                            Inr bytes \<Rightarrow> writeFile p (Bytes bytes) files
                          | Inl e \<Rightarrow> files) \<rparr>"

section \<open>Concrete inputs used by the examples below\<close>

definition chunkA :: AudioChunk where
  "chunkA = rawAudio [1 / 2, - 1 / 2] 24000"

definition chunkB :: AudioChunk where
  "chunkB = rawAudio [1 / 4] 24000"

definition chunkC :: AudioChunk where
  "chunkC = rawAudio [0, 1] 24000"

definition chunkD :: AudioChunk where
  "chunkD = rawAudio [1] 22050"

definition plainOptions :: StitchOptions where
  "plainOptions = \<lparr> outputPath = [''out'', ''speech.wav''], keepChunks = None, chunkDir = None,
                     tempDir = Some [''tmp''] \<rparr>"

text \<open>The same, with the chunks kept beside the stitched file.\<close>

definition keepOptions :: StitchOptions where
  "keepOptions = \<lparr> outputPath = [''out'', ''speech.wav''], keepChunks = Some True,
                     chunkDir = Some [''chunks''], tempDir = Some [''tmp''] \<rparr>"

text \<open>
  For the cache: a stand-in digest (text and voice, joined), a configuration with the
  given size and count budgets and a maximal age of 1000 ms, a disk with one payload of
  four bytes, and a service whose index holds given entries, each with its file on disk.
\<close>

definition exDigest :: "string \<times> string \<times> rat \<times> rat \<Rightarrow> string" where
  "exDigest = (\<lambda>(t, v, sp, te). t @ ''|'' @ v)"

definition exConfig :: "int \<Rightarrow> int \<Rightarrow> CacheConfig" where
  "exConfig ms me = \<lparr> enabled = True, directory = [''cache''], maxSize = ms, maxAge = 1000, maxEntries = me \<rparr>"

definition noOptions :: GenerationOptions where
  "noOptions = \<lparr> speed = None, temperature = None \<rparr>"

definition exDisk :: fs where
  "exDisk = [[''out.wav''] \<mapsto> Bytes [1, 2, 3, 4]]"

definition exEntry :: "string \<Rightarrow> int \<Rightarrow> int \<Rightarrow> nat \<Rightarrow> string \<times> CacheEntry" where
  "exEntry t created accessed n =
     (t @ ''|af_heart'',
      \<lparr> key = t @ ''|af_heart'', text_e = t, voice = ''af_heart'', options = noOptions,
        filePath = [''cache'', ''entries'', t @ ''|af_heart'', ''audio.wav''],
        createdAt = created, accessedAt = accessed, size_e = n \<rparr>)"

definition exService :: "int \<Rightarrow> int \<Rightarrow> (string \<times> CacheEntry) list \<Rightarrow> CacheService" where
  "exService ms me es =
     \<lparr> config = exConfig ms me,
       index = \<lparr> entries = es, totalSize = sum_list (map (\<lambda>(k, e). int (size_e e)) es), lastCleanup = 0 \<rparr>,
       stats = emptyStats \<lparr> totalEntries := length es, totalSize_s := sum_list (map (\<lambda>(k, e). int (size_e e)) es) \<rparr>,
       disk = foldr (\<lambda>(k, e) files. files(filePath e \<mapsto> Bytes (replicate (size_e e) 0))) es exDisk \<rparr>"

text \<open>
  A disk as an earlier run left it: two entries, created at 0 and at 500, the index
  snapshot and the statistics snapshot that count them.
\<close>

definition exOldDisk :: fs where
  "exOldDisk =
     (let es = [exEntry ''a'' 0 0 4, exEntry ''b'' 500 500 4] in
      (disk (exService 100 10 es))
        ([''cache'', ''index.json''] \<mapsto> IndexJson \<lparr> entries = es, totalSize = 8, lastCleanup = 0 \<rparr>,
         [''cache'', ''stats.json''] \<mapsto> StatsJson (emptyStats \<lparr> totalEntries := 2, totalSize_s := 8 \<rparr>)))"

text \<open>
  A service with one entry of six bytes under a size budget of nine: four more bytes do
  not fit beside it.
\<close>

definition exTight :: CacheService where
  "exTight = exService 9 10 [exEntry ''a'' 1 1 6]"

text \<open>A service over its budgets: 13 bytes against 12, three entries against one.\<close>

definition exFull :: CacheService where
  "exFull = exService 12 1 [exEntry ''b'' 2 2 3, exEntry ''a'' 1 1 6, exEntry ''c'' 3 3 4]"


section \<open>The stitcher: concatenation, rate mismatch, single chunk\<close>

lemma validateRates_None_iff:
  "validateRates r cs = None \<longleftrightarrow> (\<forall>c \<in> set cs. sampling_rate c = r)"
  by (induction cs) auto

lemma validateRates_find:
  "(\<exists>c \<in> set cs. sampling_rate c \<noteq> r) \<Longrightarrow>
   \<exists>c \<in> set cs. sampling_rate c \<noteq> r \<and> find (\<lambda>c. sampling_rate c \<noteq> r) cs = Some c
      \<and> validateRates r cs = Some (SampleRateMismatch r (sampling_rate c))"
  by (induction cs) auto

lemma foldl_samples_acc:
  "foldl (\<lambda>sum chunk. sum + length (audio chunk)) n cs = n + sum_list (map (\<lambda>c. length (audio c)) cs)"
  by (induction cs arbitrary: n) auto

lemma totalSamplesOf_sum:
  "totalSamplesOf cs = sum_list (map (\<lambda>c. length (audio c)) cs)"
  by (simp add: totalSamplesOf_def foldl_samples_acc)

lemma length_concat_audio:
  "length (concat (map audio cs)) = sum_list (map (\<lambda>c. length (audio c)) cs)"
  by (induction cs) auto

text \<open>
  The copy loop, started at the offset reached so far on a buffer whose filled part is
  \<open>done\<close> and whose length is that of the whole, ends with \<open>done\<close> followed by the
  remaining chunks' samples: every \<open>set\<close> fits.
\<close>

lemma copyChunks_fill:
  "length buf = length done + length (concat (map audio cs)) \<Longrightarrow> take (length done) buf = done \<Longrightarrow>
   copyChunks cs buf (length done) = done @ concat (map audio cs)"
proof (induction cs arbitrary: buf "done")
  case Nil
  then show ?case by simp
next
  case (Cons c cs)
  let ?buf' = "typed_set buf (audio c) (length done)"
  have len: "length ?buf' = length (done @ audio c) + length (concat (map audio cs))"
    using Cons.prems by (simp add: typed_set_def)
  have tk: "take (length (done @ audio c)) ?buf' = done @ audio c"
    using Cons.prems by (simp add: typed_set_def)
  have "copyChunks cs ?buf' (length (done @ audio c)) = (done @ audio c) @ concat (map audio cs)"
    by (rule Cons.IH [OF len tk])
  then show ?case by simp
qed

lemma combineAudio_concat: "combineAudio cs = concat (map audio cs)"
  using copyChunks_fill [of "replicate (totalSamplesOf cs) 0" "[]" cs]
  by (simp add: combineAudio_def totalSamplesOf_sum length_concat_audio)

text \<open>
  The header. A value within the range of its field is written, in four or in two
  bytes; so for a sampling rate from 0 on whose double (the byte rate) fits 32 bits, and
  for samples whose byte count plus 36 fits 32 bits, \<open>generateWavBuffer\<close> returns a
  buffer of 44 bytes and two more for each sample.
\<close>

lemma writeUInt32LE_ok:
  "0 \<le> v \<Longrightarrow> v \<le> 4294967295 \<Longrightarrow> \<exists>bytes. writeUInt32LE v = Inr bytes \<and> length bytes = 4"
  by (simp add: writeUInt32LE_def)

lemma writeUInt16LE_ok:
  "0 \<le> v \<Longrightarrow> v \<le> 65535 \<Longrightarrow> \<exists>bytes. writeUInt16LE v = Inr bytes \<and> length bytes = 2"
  by (simp add: writeUInt16LE_def)

lemma length_pcm: "length (concat (map (\<lambda>x. int16le (pcmSample x)) xs)) = 2 * length xs"
  by (induction xs) (simp_all add: int16le_def)

lemma generateWavBuffer_in_range:
  assumes "0 \<le> rate" and "2 * rate \<le> 4294967295" and "36 + 2 * int (length xs) \<le> 4294967295"
  shows "\<exists>wav. generateWavBuffer xs rate = Inr wav \<and> length wav = 44 + 2 * length xs"
proof -
  let ?pcm = "concat (map (\<lambda>x. int16le (pcmSample x)) xs)"
  have len: "int (length ?pcm) = 2 * int (length xs)" by (simp add: length_pcm)
  obtain b1 where b1: "writeUInt32LE (36 + int (length ?pcm)) = Inr b1" "length b1 = 4"
    using writeUInt32LE_ok [of "36 + int (length ?pcm)"] assms(3) len by auto
  obtain b2 where b2: "writeUInt32LE 16 = Inr b2" "length b2 = 4"
    using writeUInt32LE_ok [of 16] by auto
  obtain b3 where b3: "writeUInt16LE 1 = Inr b3" "length b3 = 2"
    using writeUInt16LE_ok [of 1] by auto
  obtain b5 where b5: "writeUInt32LE rate = Inr b5" "length b5 = 4"
    using writeUInt32LE_ok [of rate] assms(1,2) by auto
  obtain b6 where b6: "writeUInt32LE (rate * 1 * (16 div 8)) = Inr b6" "length b6 = 4"
    using writeUInt32LE_ok [of "rate * 1 * (16 div 8)"] assms(1,2) by auto
  obtain b7 where b7: "writeUInt16LE (1 * (16 div 8)) = Inr b7" "length b7 = 2"
    using writeUInt16LE_ok [of "1 * (16 div 8)"] by auto
  obtain b8 where b8: "writeUInt16LE 16 = Inr b8" "length b8 = 2"
    using writeUInt16LE_ok [of 16] by auto
  obtain b9 where b9: "writeUInt32LE (int (length ?pcm)) = Inr b9" "length b9 = 4"
    using writeUInt32LE_ok [of "int (length ?pcm)"] assms(3) len by auto
  have "generateWavBuffer xs rate
      = Inr (ascii ''RIFF'' @ b1 @ ascii ''WAVE'' @ ascii ''fmt '' @ b2 @ b3 @ b3 @ b5 @ b6 @ b7 @ b8
             @ ascii ''data'' @ b9 @ ?pcm)"
    unfolding generateWavBuffer_def Let_def
    by (simp only: b1(1) b2(1) b3(1) b5(1) b6(1) b7(1) b8(1) b9(1) andThen_def sum.case)
  moreover have "length (ascii ''RIFF'' @ b1 @ ascii ''WAVE'' @ ascii ''fmt '' @ b2 @ b3 @ b3 @ b5 @ b6 @ b7 @ b8
             @ ascii ''data'' @ b9 @ ?pcm) = 44 + 2 * length xs"
    by (simp add: b1(2) b2(2) b3(2) b5(2) b6(2) b7(2) b8(2) b9(2) ascii_def length_pcm)
  ultimately show ?thesis by blast
qed

text \<open>Outside that range \<open>generateWavBuffer\<close> throws, whatever the samples are.\<close>

lemma generateWavBuffer_out_of_range:
  assumes "rate < 0 \<or> 4294967295 < 2 * rate \<or> 4294967295 < 36 + 2 * int (length xs)"
  shows "\<exists>v. generateWavBuffer xs rate = Inl (RangeError v)"
  using assms
  by (auto simp: generateWavBuffer_def Let_def andThen_def writeUInt32LE_def writeUInt16LE_def length_pcm)

text \<open>
  The chunks' own \<open>save\<close> functions are run on the file system after the stitched file
  is in place. When none of them touches a path other than the one it is given, and the
  output path is not among the numbered chunk paths, the stitched file is still there
  afterwards.
\<close>

lemma saveIndividualChunksFrom_keeps:
  "(\<forall>c \<in> set cs. \<forall>p g. p \<noteq> out \<longrightarrow> save c p g out = g out) \<Longrightarrow>
   out \<notin> set (fst (saveIndividualChunksFrom i cs dir f)) \<Longrightarrow>
   snd (saveIndividualChunksFrom i cs dir f) out = f out"
proof (induction cs arbitrary: i f)
  case Nil
  then show ?case by simp
next
  case (Cons c cs)
  let ?p = "dir @ [''chunk_'' @ padStart 3 (CHR ''0'') (toString_nat (i + 1)) @ ''.wav'']"
  from Cons.prems(2) have ne: "?p \<noteq> out"
    and rest: "out \<notin> set (fst (saveIndividualChunksFrom (i + 1) cs dir (save c ?p f)))"
    by (auto simp: Let_def case_prod_beta)
  have all: "\<forall>c \<in> set cs. \<forall>p g. p \<noteq> out \<longrightarrow> save c p g out = g out"
    using Cons.prems(1) by simp
  have "snd (saveIndividualChunksFrom (i + 1) cs dir (save c ?p f)) out = save c ?p f out"
    by (rule Cons.IH [OF all rest])
  also have "\<dots> = f out" using Cons.prems(1) ne by simp
  finally show ?case by (simp add: Let_def case_prod_beta)
qed

lemma writeStitched_output: "writeStitched wav opts now files (outputPath opts) = Some (Bytes wav)"
  by (simp add: writeStitched_def rename_def writeFile_def Let_def)

text \<open>
  C3, as the claim states it, fails: two chunks sharing the sampling rate 2147483648
  are not stitched. The byte rate, twice the sampling rate, does not fit the 32 bits of
  its header field; \<open>writeUInt32LE\<close> throws a RangeError, \<open>stitchChunks\<close> returns no
  result and nothing is written at the output path. The same happens for the shared
  sampling rate -1.
\<close>

theorem stitch_multi_concat_counterexample:
  "2 \<le> length [rawAudio [1 / 2] 2147483648, rawAudio [1 / 4] 2147483648]
   \<and> sampling_rate (rawAudio [1 / 2] 2147483648) = sampling_rate (rawAudio [1 / 4] 2147483648)
   \<and> fst (stitchChunks [rawAudio [1 / 2] 2147483648, rawAudio [1 / 4] 2147483648] plainOptions 7 Map.empty)
        = Inl (RangeError 4294967296)
   \<and> snd (stitchChunks [rawAudio [1 / 2] 2147483648, rawAudio [1 / 4] 2147483648] plainOptions 7 Map.empty)
         [''out'', ''speech.wav''] = None
   \<and> sampling_rate (rawAudio [1 / 2] (- 1)) = sampling_rate (rawAudio [1 / 4] (- 1))
   \<and> fst (stitchChunks [rawAudio [1 / 2] (- 1), rawAudio [1 / 4] (- 1)] plainOptions 7 Map.empty)
        = Inl (RangeError (- 1))
   \<and> snd (stitchChunks [rawAudio [1 / 2] (- 1), rawAudio [1 / 4] (- 1)] plainOptions 7 Map.empty)
         [''out'', ''speech.wav''] = None"
  by code_simp

text \<open>
  C3, amended. For two or more chunks sharing one sampling rate that fits the header
  (the rate is not negative and twice the rate is at most 4294967295, and neither is 36
  plus the byte count of the samples, two for each, more than that), the combined sample
  sequence is the concatenation of the chunks' samples in input order, its encoding
  \<open>wav\<close> exists, and \<open>stitchChunks\<close> returns a result with \<open>totalSamples\<close> the sum of the
  chunks' sample counts and \<open>totalDuration\<close> that sum divided by the rate. The file
  system it leaves is the one in which \<open>wav\<close> has been written to the output path,
  followed, exactly when \<open>keepChunks\<close> and \<open>chunkDir\<close> are set, by the saving of the
  chunks to their numbered paths, which are then the result's \<open>chunkPaths\<close>; and the
  output path still holds \<open>wav\<close> at the end, provided no chunk's \<open>save\<close> touches a path
  other than its own and the output path is not one of the numbered paths.
\<close>

theorem stitch_multi_concat:
  assumes "2 \<le> length chunks"
    and "\<forall>c \<in> set chunks. sampling_rate c = rate"
    and "0 \<le> rate" and "2 * rate \<le> 4294967295"
    and "36 + 2 * int (sum_list (map (\<lambda>c. length (audio c)) chunks)) \<le> 4294967295"
  shows "combineAudio chunks = concat (map audio chunks)
    \<and> (\<exists>wav. generateWavBuffer (concat (map audio chunks)) rate = Inr wav
         \<and> (let total = sum_list (map (\<lambda>c. length (audio c)) chunks);
                files1 = writeStitched wav opts now files;
                keep = (keepChunks opts = Some True \<and> truthy (chunkDir opts));
                saved = saveIndividualChunks chunks (the (chunkDir opts)) files1
            in files1 (outputPath opts) = Some (Bytes wav)
             \<and> stitchChunks chunks opts now files =
                 (Inr \<lparr> outputPath_r = outputPath opts,
                        chunkPaths = (if keep then Some (fst saved) else None),
                        totalDuration = js_divide (of_nat total) (of_int rate),
                        totalSamples = total \<rparr>,
                  if keep then snd saved else files1)
             \<and> ((\<forall>c \<in> set chunks. \<forall>p g. p \<noteq> outputPath opts
                       \<longrightarrow> save c p g (outputPath opts) = g (outputPath opts))
                  \<and> outputPath opts \<notin> set (fst saved)
                \<longrightarrow> snd (stitchChunks chunks opts now files) (outputPath opts) = Some (Bytes wav))))"
proof -
  let ?total = "sum_list (map (\<lambda>c. length (audio c)) chunks)"
  obtain a b rest where ch: "chunks = a # b # rest"
    using assms(1) by (cases chunks; cases "tl chunks") auto
  have ra: "sampling_rate a = rate" using assms(2) ch by simp
  have v: "validateRates rate chunks = None"
    using assms(2) by (simp only: validateRates_None_iff)
  have lc: "length (concat (map audio chunks)) = ?total" by (rule length_concat_audio)
  from generateWavBuffer_in_range [OF assms(3,4), of "concat (map audio chunks)"] assms(5) lc
  obtain wav where wav: "generateWavBuffer (concat (map audio chunks)) rate = Inr wav" by auto
  let ?files1 = "writeStitched wav opts now files"
  let ?keep = "keepChunks opts = Some True \<and> truthy (chunkDir opts)"
  let ?saved = "saveIndividualChunks chunks (the (chunkDir opts)) ?files1"
  have out1: "?files1 (outputPath opts) = Some (Bytes wav)" by (rule writeStitched_output)
  have res: "stitchChunks chunks opts now files =
                 (Inr \<lparr> outputPath_r = outputPath opts,
                        chunkPaths = (if ?keep then Some (fst ?saved) else None),
                        totalDuration = js_divide (of_nat ?total) (of_int rate),
                        totalSamples = ?total \<rparr>,
                  if ?keep then snd ?saved else ?files1)"
    using v wav ra unfolding stitchChunks_def
    by (simp add: ch combineAudio_concat totalSamplesOf_sum Let_def split: prod.splits)
  have kept: "snd (stitchChunks chunks opts now files) (outputPath opts) = Some (Bytes wav)"
    if "\<forall>c \<in> set chunks. \<forall>p g. p \<noteq> outputPath opts \<longrightarrow> save c p g (outputPath opts) = g (outputPath opts)"
      and "outputPath opts \<notin> set (fst ?saved)"
  proof (cases ?keep)
    case False
    with res out1 show ?thesis by simp
  next
    case True
    have "snd ?saved (outputPath opts) = ?files1 (outputPath opts)"
      unfolding saveIndividualChunks_def
      by (rule saveIndividualChunksFrom_keeps [OF that(1) that(2) [unfolded saveIndividualChunks_def]])
    with True res out1 show ?thesis by simp
  qed
  from wav out1 res kept have "generateWavBuffer (concat (map audio chunks)) rate = Inr wav
         \<and> (let total = ?total;
                files1 = writeStitched wav opts now files;
                keep = ?keep;
                saved = saveIndividualChunks chunks (the (chunkDir opts)) files1
            in files1 (outputPath opts) = Some (Bytes wav)
             \<and> stitchChunks chunks opts now files =
                 (Inr \<lparr> outputPath_r = outputPath opts,
                        chunkPaths = (if keep then Some (fst saved) else None),
                        totalDuration = js_divide (of_nat total) (of_int rate),
                        totalSamples = total \<rparr>,
                  if keep then snd saved else files1)
             \<and> ((\<forall>c \<in> set chunks. \<forall>p g. p \<noteq> outputPath opts
                       \<longrightarrow> save c p g (outputPath opts) = g (outputPath opts))
                  \<and> outputPath opts \<notin> set (fst saved)
                \<longrightarrow> snd (stitchChunks chunks opts now files) (outputPath opts) = Some (Bytes wav)))"
    unfolding Let_def by blast
  then show ?thesis using combineAudio_concat by blast
qed

theorem stitch_multi_concat_witness:
  "2 \<le> length [chunkA, chunkB, chunkC]
   \<and> sampling_rate chunkA = 24000 \<and> sampling_rate chunkB = 24000 \<and> sampling_rate chunkC = 24000
   \<and> (0::int) \<le> 24000 \<and> 2 * (24000::int) \<le> 4294967295
   \<and> 36 + 2 * int (sum_list (map (\<lambda>c. length (audio c)) [chunkA, chunkB, chunkC])) \<le> 4294967295
   \<and> combineAudio [chunkA, chunkB, chunkC] = [1 / 2, - 1 / 2, 1 / 4, 0, 1]
   \<and> generateWavBuffer [1 / 2, - 1 / 2, 1 / 4, 0, 1] 24000
        = Inr [82, 73, 70, 70, 46, 0, 0, 0, 87, 65, 86, 69, 102, 109, 116, 32, 16, 0,
               0, 0, 1, 0, 1, 0, 192, 93, 0, 0, 128, 187, 0, 0, 2, 0, 16, 0, 100, 97,
               116, 97, 10, 0, 0, 0, 0, 64, 1, 192, 0, 32, 0, 0, 255, 127]
   \<and> fst (stitchChunks [chunkA, chunkB, chunkC] keepOptions 7 Map.empty)
        = Inr \<lparr> outputPath_r = [''out'', ''speech.wav''],
                chunkPaths = Some [[''chunks'', ''chunk_001.wav''], [''chunks'', ''chunk_002.wav''],
                                   [''chunks'', ''chunk_003.wav'']],
                totalDuration = Finite (5 / 24000), totalSamples = 5 \<rparr>
   \<and> snd (stitchChunks [chunkA, chunkB, chunkC] keepOptions 7 Map.empty) [''out'', ''speech.wav'']
        = Some (Bytes [82, 73, 70, 70, 46, 0, 0, 0, 87, 65, 86, 69, 102, 109, 116, 32, 16, 0,
               0, 0, 1, 0, 1, 0, 192, 93, 0, 0, 128, 187, 0, 0, 2, 0, 16, 0, 100, 97,
               116, 97, 10, 0, 0, 0, 0, 64, 1, 192, 0, 32, 0, 0, 255, 127])"
proof -
  let ?cs = "[chunkA, chunkB, chunkC]"
  let ?W = "[82, 73, 70, 70, 46, 0, 0, 0, 87, 65, 86, 69, 102, 109, 116, 32, 16, 0,
               0, 0, 1, 0, 1, 0, 192, 93, 0, 0, 128, 187, 0, 0, 2, 0, 16, 0, 100, 97,
               116, 97, 10, 0, 0, 0, 0, 64, 1, 192, 0, 32, 0, 0, 255, 127] :: 8 word list"
  have h1: "2 \<le> length ?cs" by simp
  have r: "sampling_rate chunkA = 24000" "sampling_rate chunkB = 24000" "sampling_rate chunkC = 24000"
    by (simp_all add: chunkA_def chunkB_def chunkC_def rawAudio_def)
  then have h2: "\<forall>c \<in> set ?cs. sampling_rate c = 24000" by simp
  have h3: "(0::int) \<le> 24000" and h4: "2 * (24000::int) \<le> 4294967295" by simp_all
  have h5: "36 + 2 * int (sum_list (map (\<lambda>c. length (audio c)) ?cs)) \<le> 4294967295"
    by (simp add: chunkA_def chunkB_def chunkC_def rawAudio_def)
  have cc: "concat (map audio ?cs) = [1 / 2, - 1 / 2, 1 / 4, 0, 1]"
    by (simp add: chunkA_def chunkB_def chunkC_def rawAudio_def)
  have w: "generateWavBuffer [1 / 2, - 1 / 2, 1 / 4, 0, 1] 24000 = Inr ?W" by code_simp
  have f: "fst (stitchChunks ?cs keepOptions 7 Map.empty)
        = Inr \<lparr> outputPath_r = [''out'', ''speech.wav''],
                chunkPaths = Some [[''chunks'', ''chunk_001.wav''], [''chunks'', ''chunk_002.wav''],
                                   [''chunks'', ''chunk_003.wav'']],
                totalDuration = Finite (5 / 24000), totalSamples = 5 \<rparr>"
    by code_simp
  have out: "outputPath keepOptions = [''out'', ''speech.wav'']" by (simp add: keepOptions_def)
  have saves: "\<forall>c \<in> set ?cs. \<forall>p g. p \<noteq> outputPath keepOptions
                 \<longrightarrow> save c p g (outputPath keepOptions) = g (outputPath keepOptions)"
    by (simp add: chunkA_def chunkB_def chunkC_def rawAudio_def writeFile_def split: sum.splits)
  have paths: "outputPath keepOptions \<notin> set (fst (saveIndividualChunks ?cs (the (chunkDir keepOptions)) g))" for g
    by (simp add: saveIndividualChunks_def keepOptions_def Let_def case_prod_beta)
  note t = stitch_multi_concat [OF h1 h2 h3 h4 h5, of keepOptions 7 Map.empty, unfolded cc Let_def w]
  from t have c1: "combineAudio ?cs = [1 / 2, - 1 / 2, 1 / 4, 0, 1]" by blast
  from t saves paths have "snd (stitchChunks ?cs keepOptions 7 Map.empty) (outputPath keepOptions) = Some (Bytes ?W)"
    by blast
  then have c2: "snd (stitchChunks ?cs keepOptions 7 Map.empty) [''out'', ''speech.wav''] = Some (Bytes ?W)"
    unfolding out .
  from h1 r h3 h4 h5 c1 w f c2 show ?thesis by (intro conjI) assumption+
qed

text \<open>
  C8. For two or more chunks of which one has a sampling rate other than the first
  chunk's, \<open>stitchChunks\<close> throws the sample-rate mismatch error, naming the expected rate
  and the rate of the first offending chunk, and the file system is exactly as before:
  nothing is written at the output path, at a temporary path or anywhere else.
\<close>

theorem stitch_rate_mismatch:
  assumes "2 \<le> length chunks"
    and "\<exists>c \<in> set chunks. sampling_rate c \<noteq> sampling_rate (hd chunks)"
  shows "\<exists>c \<in> set chunks. sampling_rate c \<noteq> sampling_rate (hd chunks) \<and>
     find (\<lambda>c. sampling_rate c \<noteq> sampling_rate (hd chunks)) chunks = Some c \<and>
     stitchChunks chunks opts now files
       = (Inl (SampleRateMismatch (sampling_rate (hd chunks)) (sampling_rate c)), files)"
proof -
  obtain a b rest where ch: "chunks = a # b # rest"
    using assms(1) by (cases chunks; cases "tl chunks") auto
  from validateRates_find [where r = "sampling_rate a" and cs = chunks] assms(2) ch
  obtain c where c: "c \<in> set chunks" "sampling_rate c \<noteq> sampling_rate a"
      "find (\<lambda>c. sampling_rate c \<noteq> sampling_rate a) chunks = Some c"
      "validateRates (sampling_rate a) chunks = Some (SampleRateMismatch (sampling_rate a) (sampling_rate c))"
    by auto
  have "stitchChunks chunks opts now files
       = (Inl (SampleRateMismatch (sampling_rate a) (sampling_rate c)), files)"
    using c(4) unfolding ch stitchChunks_def by simp
  with c ch show ?thesis by auto
qed

theorem stitch_rate_mismatch_witness:
  "2 \<le> length [chunkA, chunkD] \<and> sampling_rate chunkD \<noteq> sampling_rate (hd [chunkA, chunkD])
   \<and> stitchChunks [chunkA, chunkD] plainOptions 7 Map.empty = (Inl (SampleRateMismatch 24000 22050), Map.empty)"
  using stitch_rate_mismatch [of "[chunkA, chunkD]" plainOptions 7 Map.empty]
  by (auto simp: chunkA_def chunkD_def rawAudio_def)

text \<open>
  C10. With exactly one chunk, \<open>stitchChunks\<close> returns normally whatever the chunk's
  sampling rate is (nothing is validated); the result has no chunk paths, the duration
  and the sample count of that chunk; the only effect on the file system is the chunk's
  own \<open>save\<close> at the output path; and \<open>keepChunks\<close> and \<open>chunkDir\<close> make no difference.
\<close>

theorem stitch_single_chunk:
  "stitchChunks [c] opts now files =
     (Inr \<lparr> outputPath_r = outputPath opts, chunkPaths = None,
            totalDuration = js_divide (of_nat (length (audio c))) (of_int (sampling_rate c)),
            totalSamples = length (audio c) \<rparr>,
      save c (outputPath opts) files)
   \<and> stitchChunks [c] (opts\<lparr>keepChunks := k, chunkDir := d\<rparr>) now files = stitchChunks [c] opts now files"
  by (simp add: stitchChunks_def)

section \<open>The streaming path of the audio service\<close>

text \<open>
  C7. The streaming path does not write the concatenation of the generated chunks: for
  an engine that yields the two chunks \<open>chunkA\<close> and \<open>chunkB\<close>, the output path holds the
  WAV file of \<open>chunkB\<close> alone, which is not the WAV file of the samples of both.
\<close>

theorem streamAudio_last_chunk_only:
  "snd (streamAudio (Some (\<lambda>t v sp te. [chunkA, chunkB])) ''One. Two.'' ''af_heart'' [''out.wav'']
          \<lparr> speed = None, temperature = None \<rparr> Map.empty) [''out.wav'']
     = Some (Bytes [82, 73, 70, 70, 38, 0, 0, 0, 87, 65, 86, 69, 102, 109, 116, 32, 16, 0,
                    0, 0, 1, 0, 1, 0, 192, 93, 0, 0, 128, 187, 0, 0, 2, 0, 16, 0, 100, 97,
                    116, 97, 2, 0, 0, 0, 0, 32])
   \<and> generateWavBuffer (audio chunkB) 24000
     = Inr [82, 73, 70, 70, 38, 0, 0, 0, 87, 65, 86, 69, 102, 109, 116, 32, 16, 0,
            0, 0, 1, 0, 1, 0, 192, 93, 0, 0, 128, 187, 0, 0, 2, 0, 16, 0, 100, 97,
            116, 97, 2, 0, 0, 0, 0, 32]
   \<and> generateWavBuffer (audio chunkA @ audio chunkB) 24000
     = Inr [82, 73, 70, 70, 42, 0, 0, 0, 87, 65, 86, 69, 102, 109, 116, 32, 16, 0,
            0, 0, 1, 0, 1, 0, 192, 93, 0, 0, 128, 187, 0, 0, 2, 0, 16, 0, 100, 97,
            116, 97, 6, 0, 0, 0, 0, 64, 1, 192, 0, 32]
   \<and> generateWavBuffer (audio chunkB) 24000 \<noteq> generateWavBuffer (audio chunkA @ audio chunkB) 24000"
  by code_simp


section \<open>The segmenter\<close>

text \<open>
  C2. The segmenter does not keep every chunk within the limit: on the text below with
  limit 20 the second sentence, which follows a chunk that is not empty, is kept whole
  as a chunk of 50 characters and several words. Nor does it keep every character that
  is not white space: a comma at which a long sentence is cut is dropped.
\<close>

theorem segmenter_oversized_chunk:
  "splitTextIntoChunks ''Hello world. This is a test sentence that is quite long indeed.'' 20
     = [''Hello world.'', ''This is a test sentence that is quite long indeed.'']
   \<and> length ''This is a test sentence that is quite long indeed.'' = 50
   \<and> splitTextIntoChunks ''red, green'' 6 = [''red'', ''green'']"
  by code_simp

text \<open>
  C9, as the claim states it, fails: a short text with white space around it comes back
  as it is, not trimmed.
\<close>

theorem short_text_counterexample:
  "int (length '' Hi there. '') < 50 \<and> splitTextIntoChunks '' Hi there. '' 50 \<noteq> [trim '' Hi there. '']"
  by (simp add: splitTextIntoChunks_def trim_def isSpace_def)

text \<open>
  C9, amended. For a text shorter than the limit the segmenter returns exactly one
  chunk, the text itself, unchanged; so the chunk, once trimmed, is the trimmed text.
\<close>

theorem short_text_single_chunk:
  assumes "int (length txt) < maxChunkSize"
  shows "splitTextIntoChunks txt maxChunkSize = [txt]
       \<and> map trim (splitTextIntoChunks txt maxChunkSize) = [trim txt]"
  using assms by (simp add: splitTextIntoChunks_def)

theorem short_text_single_chunk_witness:
  "int (length '' Hi there. '') < 50 \<and> splitTextIntoChunks '' Hi there. '' 50 = ['' Hi there. '']
   \<and> map trim (splitTextIntoChunks '' Hi there. '' 50) = [''Hi there.'']"
  using short_text_single_chunk [of "'' Hi there. ''" 50]
  by (simp add: trim_def isSpace_def)

section \<open>The cache: what deleting entries does\<close>

text \<open>
  \<open>deleteEntry\<close> takes the key out of the index whether or not it finds an entry; it
  leaves the configuration and the statistics alone.
\<close>

lemma length_delete_distinct:
  "distinct (map fst es) \<Longrightarrow> map_of es k = Some e \<Longrightarrow> Suc (length (AList.delete k es)) = length es"
proof (induction es)
  case Nil
  then show ?case by simp
next
  case (Cons p es)
  obtain k' e' where p: "p = (k', e')" by (cases p)
  show ?case
  proof (cases "k' = k")
    case True
    with Cons.prems p have "k \<notin> fst ` set es" by auto
    then have "AList.delete k es = es"
      by (simp add: delete_id)
    with True p show ?thesis by simp
  next
    case False
    with Cons p show ?thesis by simp
  qed
qed

lemma deleteEntry_entries:
  "entries (index (deleteEntry k s)) = AList.delete k (entries (index s))"
proof (cases "map_of (entries (index s)) k")
  case None
  then have "k \<notin> fst ` set (entries (index s))"
    by (simp add: map_of_eq_None_iff)
  then show ?thesis using None by (simp add: deleteEntry_def delete_id)
next
  case (Some e)
  then show ?thesis by (simp add: deleteEntry_def)
qed

lemma deleteEntry_config [simp]: "config (deleteEntry k s) = config s"
  by (simp add: deleteEntry_def split: option.splits)

lemma deleteEntry_stats [simp]: "stats (deleteEntry k s) = stats s"
  by (simp add: deleteEntry_def split: option.splits)

text \<open>
  The size loop deletes a prefix of its array, each deletion forced by the size budget,
  and stops at the first state within the budget. Whatever the count loop returns, it has
  only deleted entries; with a count budget that is not negative it returns, having
  deleted all but the last \<open>maxEntries\<close> entries of its array.
\<close>

lemma sizeLoop_deletes:
  "\<exists>n \<le> length es. sizeLoop es s = (drop n es, deleteEntries s (take n es))
     \<and> (\<forall>i<n. totalSize (index (deleteEntries s (take i es))) > maxSize (config s))
     \<and> (n < length es \<longrightarrow>
          totalSize (index (deleteEntries s (take n es))) \<le> maxSize (config s))"
proof (induction es arbitrary: s)
  case Nil
  then show ?case by simp
next
  case (Cons e es)
  show ?case
  proof (cases "totalSize (index s) > maxSize (config s)")
    case False
    then show ?thesis by (intro exI [of _ 0]) simp
  next
    case True
    from Cons.IH [of "deleteEntry (key e) s"]
    obtain n where n: "n \<le> length es"
      "sizeLoop es (deleteEntry (key e) s)
         = (drop n es, deleteEntries (deleteEntry (key e) s) (take n es))"
      "\<forall>i<n. totalSize (index (deleteEntries (deleteEntry (key e) s) (take i es)))
              > maxSize (config s)"
      "n < length es \<longrightarrow>
         totalSize (index (deleteEntries (deleteEntry (key e) s) (take n es)))
           \<le> maxSize (config s)"
      by auto
    have forced: "\<forall>i<Suc n. totalSize (index (deleteEntries s (take i (e # es))))
              > maxSize (config s)"
    proof (intro allI impI)
      fix i assume "i < Suc n"
      then show "totalSize (index (deleteEntries s (take i (e # es)))) > maxSize (config s)"
        using True n(3) by (cases i) auto
    qed
    show ?thesis
      using True n(1,2,4) forced by (intro exI [of _ "Suc n"]) simp
  qed
qed

lemma countLoop_deletes:
  assumes "countLoop es s = Some s'"
  shows "\<exists>xs. s' = deleteEntries s xs"
proof (rule countLoop.raw_induct
    [where P = "\<lambda>es s s'. \<exists>xs. s' = deleteEntries s xs", OF _ assms])
  fix loop :: "CacheEntry list \<Rightarrow> CacheService \<Rightarrow> CacheService option" and es s s'
  assume IH: "\<And>es s y. loop es s = Some y \<Longrightarrow> \<exists>xs. y = deleteEntries s xs"
    and step: "(if maxEntries (config s) < int (length es)
                then case es of [] \<Rightarrow> loop es s
                     | entry # rest \<Rightarrow> loop rest (deleteEntry (key entry) s)
                else Some s) = Some s'"
  show "\<exists>xs. s' = deleteEntries s xs"
  proof (cases "int (length es) > maxEntries (config s)")
    case False
    with step have "s' = deleteEntries s []" by simp
    then show ?thesis by blast
  next
    case True
    show ?thesis
    proof (cases es)
      case Nil
      with True step have "loop es s = Some s'" by simp
      from IH [OF this] show ?thesis .
    next
      case (Cons e rest)
      with True step have "loop rest (deleteEntry (key e) s) = Some s'" by simp
      from IH [OF this] obtain xs where "s' = deleteEntries (deleteEntry (key e) s) xs"
        by auto
      then have "s' = deleteEntries s (e # xs)" by simp
      then show ?thesis by blast
    qed
  qed
qed

lemma enforceConstraints_deletes:
  assumes "enforceConstraints s = Some s'"
  shows "\<exists>xs. s' = deleteEntries s xs"
proof -
  let ?es = "map snd (entries (index s))"
  obtain es1 s1 where p: "(if totalSize (index s) > maxSize (config s)
                       then sizeLoop (sort_key accessedAt ?es) s else (?es, s)) = (es1, s1)"
    by (cases "(if totalSize (index s) > maxSize (config s)
                       then sizeLoop (sort_key accessedAt ?es) s else (?es, s))") 
  have "\<exists>ys. s1 = deleteEntries s ys"
  proof (cases "totalSize (index s) > maxSize (config s)")
    case True
    from sizeLoop_deletes [of "sort_key accessedAt ?es" s]
    obtain n where "sizeLoop (sort_key accessedAt ?es) s
       = (drop n (sort_key accessedAt ?es), deleteEntries s (take n (sort_key accessedAt ?es)))"
      by blast
    with True p have "s1 = deleteEntries s (take n (sort_key accessedAt ?es))" by simp
    then show ?thesis by blast
  next
    case False
    with p have "s1 = deleteEntries s []" by simp
    then show ?thesis by blast
  qed
  then obtain ys where ys: "s1 = deleteEntries s ys" ..
  have "\<exists>zs. s' = deleteEntries s1 zs"
  proof (cases "int (length es1) > maxEntries (config s1)")
    case True
    with assms p have "countLoop (sort_key accessedAt es1) s1 = Some s'"
      by (simp add: enforceConstraints_def Let_def)
    then show ?thesis by (rule countLoop_deletes)
  next
    case False
    with assms p have "s' = deleteEntries s1 []" by (simp add: enforceConstraints_def Let_def)
    then show ?thesis by blast
  qed
  then obtain zs where "s' = deleteEntries s1 zs" ..
  with ys have "s' = deleteEntries s (ys @ zs)" by simp
  then show ?thesis by blast
qed

text \<open>
  When every entry's file lies in the entry's own directory, deleting other entries
  leaves the entry under key \<open>k\<close> and its file as they are.
\<close>

lemma set_update_cases:
  "(a, b) \<in> set (AList.update k v al) \<Longrightarrow> (a, b) = (k, v) \<or> (a, b) \<in> set al"
  by (induction al) (auto split: if_splits)

lemma deleteEntry_disk_other:
  assumes "\<forall>(k', e') \<in> set (entries (index st)). filePath e' = E @ [k', ''audio.wav'']"
    and "k0 \<noteq> k"
  shows "disk (deleteEntry k0 st) (E @ [k, ''audio.wav'']) = disk st (E @ [k, ''audio.wav''])"
proof (cases "map_of (entries (index st)) k0")
  case None
  then show ?thesis by (simp add: deleteEntry_def)
next
  case (Some e0)
  then have "(k0, e0) \<in> set (entries (index st))" by (rule map_of_SomeD)
  with assms(1) have fp: "filePath e0 = E @ [k0, ''audio.wav'']" by auto
  have "\<not> isUnder (E @ [k0]) (E @ [k, ''audio.wav''])"
    using assms(2) by (simp add: isUnder_def)
  with Some fp show ?thesis
    by (simp add: deleteEntry_def rm_rf_def butlast_append)
qed

lemma deleteEntry_keeps:
  assumes "\<forall>(k', e') \<in> set (entries (index st)). filePath e' = E @ [k', ''audio.wav'']"
    and "k \<in> fst ` set (entries (index st)) \<longrightarrow>
           map_of (entries (index st)) k = Some entry \<and> disk st (E @ [k, ''audio.wav'']) = Some payload"
  shows "(\<forall>(k', e') \<in> set (entries (index (deleteEntry k0 st))). filePath e' = E @ [k', ''audio.wav''])
    \<and> (k \<in> fst ` set (entries (index (deleteEntry k0 st))) \<longrightarrow>
           map_of (entries (index (deleteEntry k0 st))) k = Some entry
           \<and> disk (deleteEntry k0 st) (E @ [k, ''audio.wav'']) = Some payload)"
proof (intro conjI impI)
  show "\<forall>(k', e') \<in> set (entries (index (deleteEntry k0 st))). filePath e' = E @ [k', ''audio.wav'']"
    using assms(1) by (auto simp: deleteEntry_entries AList.delete_eq)
next
  assume in': "k \<in> fst ` set (entries (index (deleteEntry k0 st)))"
  then have ne: "k0 \<noteq> k"
    by (auto simp: deleteEntry_entries AList.delete_eq)
  from in' have "k \<in> fst ` set (entries (index st))"
    by (auto simp: deleteEntry_entries AList.delete_eq)
  with assms(2) have old: "map_of (entries (index st)) k = Some entry"
      "disk st (E @ [k, ''audio.wav'']) = Some payload" by auto
  show "map_of (entries (index (deleteEntry k0 st))) k = Some entry"
    using old(1) ne by (simp add: deleteEntry_entries delete_conv)
  show "disk (deleteEntry k0 st) (E @ [k, ''audio.wav'']) = Some payload"
    using deleteEntry_disk_other [OF assms(1) ne] old(2) by simp
qed

lemma deleteEntries_keeps:
  assumes "\<forall>(k', e') \<in> set (entries (index st)). filePath e' = E @ [k', ''audio.wav'']"
    and "k \<in> fst ` set (entries (index st)) \<longrightarrow>
           map_of (entries (index st)) k = Some entry \<and> disk st (E @ [k, ''audio.wav'']) = Some payload"
  shows "k \<in> fst ` set (entries (index (deleteEntries st xs))) \<longrightarrow>
           map_of (entries (index (deleteEntries st xs))) k = Some entry
           \<and> disk (deleteEntries st xs) (E @ [k, ''audio.wav'']) = Some payload"
  using assms
proof (induction xs arbitrary: st)
  case Nil
  then show ?case by simp
next
  case (Cons x xs)
  from deleteEntry_keeps [OF Cons.prems, of "key x"]
  have a: "\<forall>(k', e') \<in> set (entries (index (deleteEntry (key x) st))). filePath e' = E @ [k', ''audio.wav'']"
    and b: "k \<in> fst ` set (entries (index (deleteEntry (key x) st))) \<longrightarrow>
           map_of (entries (index (deleteEntry (key x) st))) k = Some entry
           \<and> disk (deleteEntry (key x) st) (E @ [k, ''audio.wav'']) = Some payload"
    by blast+
  from Cons.IH [OF a b] show ?case by simp
qed

lemma deleteEntries_config [simp]: "config (deleteEntries s xs) = config s"
  by (induction xs arbitrary: s) auto

lemma deleteEntries_stats [simp]: "stats (deleteEntries s xs) = stats s"
  by (induction xs arbitrary: s) auto

lemma countLoop_returns:
  "0 \<le> maxEntries (config s) \<Longrightarrow>
   countLoop es s = Some (deleteEntries s (take (length es - nat (maxEntries (config s))) es))"
proof (induction es arbitrary: s)
  case Nil
  then show ?case by (subst countLoop.simps) simp
next
  case (Cons e es)
  show ?case
  proof (cases "int (length (e # es)) > maxEntries (config s)")
    case False
    then show ?thesis by (subst countLoop.simps) simp
  next
    case True
    then have le: "nat (maxEntries (config s)) \<le> length es" by simp
    have "countLoop (e # es) s = countLoop es (deleteEntry (key e) s)"
      using True by (subst countLoop.simps) simp
    also have "\<dots> = Some (deleteEntries (deleteEntry (key e) s) (take (length es - nat (maxEntries (config s))) es))"
      using Cons.IH [of "deleteEntry (key e) s"] Cons.prems by simp
    also have "\<dots> = Some (deleteEntries s (take (length (e # es) - nat (maxEntries (config s))) (e # es)))"
      using le by (simp add: Suc_diff_le)
    finally show ?thesis .
  qed
qed

text \<open>
  Deleting never raises \<open>totalSize\<close>; the entries left after deleting a list of entries
  are those whose keys the list does not name, which for an index whose entries carry
  their own keys are the entries not in the list.
\<close>

lemma deleteEntry_totalSize_le: "totalSize (index (deleteEntry k s)) \<le> totalSize (index s)"
  by (simp add: deleteEntry_def split: option.splits)

lemma deleteEntries_totalSize_le: "totalSize (index (deleteEntries s xs)) \<le> totalSize (index s)"
proof (induction xs arbitrary: s)
  case Nil
  then show ?case by simp
next
  case (Cons x xs)
  have "totalSize (index (deleteEntries (deleteEntry (key x) s) xs)) \<le> totalSize (index (deleteEntry (key x) s))"
    by (rule Cons.IH)
  also have "\<dots> \<le> totalSize (index s)" by (rule deleteEntry_totalSize_le)
  finally show ?case by simp
qed

lemma deleteEntries_entries:
  "entries (index (deleteEntries s xs)) = filter (\<lambda>(k, e). k \<notin> key ` set xs) (entries (index s))"
proof (induction xs arbitrary: s)
  case Nil
  then show ?case by simp
next
  case (Cons x xs)
  have "entries (index (deleteEntries (deleteEntry (key x) s) xs))
          = filter (\<lambda>(k, e). k \<notin> key ` set xs) (AList.delete (key x) (entries (index s)))"
    by (simp add: Cons.IH deleteEntry_entries)
  also have "\<dots> = filter (\<lambda>(k, e). k \<notin> key ` set (x # xs)) (entries (index s))"
    by (auto simp: AList.delete_eq intro: filter_cong)
  finally show ?case by simp
qed

lemma deleteEntries_values:
  assumes d: "distinct (map fst (entries (index s)))"
    and wf: "\<forall>(k, e) \<in> set (entries (index s)). key e = k"
    and sub: "set xs \<subseteq> snd ` set (entries (index s))"
  shows "map snd (entries (index (deleteEntries s xs)))
           = filter (\<lambda>e. e \<notin> set xs) (map snd (entries (index s)))"
proof -
  have "(k \<notin> key ` set xs) = (e \<notin> set xs)" if "(k, e) \<in> set (entries (index s))" for k e
  proof
    assume "k \<notin> key ` set xs"
    with that wf show "e \<notin> set xs" by force
  next
    assume ne: "e \<notin> set xs"
    show "k \<notin> key ` set xs"
    proof
      assume "k \<in> key ` set xs"
      then obtain x where x: "x \<in> set xs" "key x = k" by auto
      with sub obtain k' where k': "(k', x) \<in> set (entries (index s))" by force
      with wf x have "k' = k" by auto
      with k' that d have "x = e" by (meson eq_key_imp_eq_value)
      with x ne show False by simp
    qed
  qed
  then have "(case p of (k, e) \<Rightarrow> k \<notin> key ` set xs) = (snd p \<notin> set xs)"
    if "p \<in> set (entries (index s))" for p
    using that by (cases p) simp
  then have "filter (\<lambda>(k, e). k \<notin> key ` set xs) (entries (index s))
           = filter (\<lambda>p. snd p \<notin> set xs) (entries (index s))"
    by (intro filter_cong refl)
  then show ?thesis
    by (simp add: deleteEntries_entries filter_map o_def)
qed

lemma sorted_map_nth_drop:
  assumes "sorted (map f xs)" and "i < length xs" and "e \<in> set (drop i xs)"
  shows "f (xs ! i) \<le> f e"
proof -
  from assms(3) obtain j where j: "j < length (drop i xs)" "e = drop i xs ! j"
    by (auto simp: in_set_conv_nth)
  then have "e = xs ! (i + j)" and ij: "i + j < length xs" using assms(2) by auto
  moreover have "map f xs ! i \<le> map f xs ! (i + j)"
    using assms(1) ij by (intro sorted_nth_mono) auto
  ultimately show ?thesis using assms(2) by simp
qed

text \<open>
  Both loops together: \<open>n1\<close> deletions for the size budget, then as many as the count
  budget asks for, all along the index sorted by \<open>accessedAt\<close>.
\<close>

lemma enforceConstraints_prefix:
  assumes me: "0 \<le> maxEntries (config s)"
  shows "\<exists>n1 \<le> length (entries (index s)).
      enforceConstraints s
        = Some (deleteEntries s (take (n1 + (length (entries (index s)) - n1 - nat (maxEntries (config s))))
                                  (sort_key accessedAt (map snd (entries (index s))))))
    \<and> (\<forall>i<n1. totalSize (index (deleteEntries s (take i (sort_key accessedAt (map snd (entries (index s)))))))
               > maxSize (config s))
    \<and> (n1 < length (entries (index s)) \<longrightarrow>
         totalSize (index (deleteEntries s (take n1 (sort_key accessedAt (map snd (entries (index s)))))))
           \<le> maxSize (config s))"
proof -
  let ?es = "map snd (entries (index s))"
  let ?L = "sort_key accessedAt ?es"
  let ?m = "nat (maxEntries (config s))"
  have lenL: "length ?L = length (entries (index s))" by simp
  show ?thesis
  proof (cases "totalSize (index s) > maxSize (config s)")
    case False
    have "enforceConstraints s = Some (deleteEntries s (take (length ?L - ?m) ?L))"
    proof (cases "int (length ?es) > maxEntries (config s)")
      case True
      with False show ?thesis
        using countLoop_returns [OF me, of ?L] by (simp add: enforceConstraints_def Let_def)
    next
      case c: False
      then have "length ?L - ?m = 0" by simp
      with False c show ?thesis by (simp add: enforceConstraints_def Let_def)
    qed
    with False show ?thesis
      by (intro exI [of _ 0]) simp
  next
    case True
    from sizeLoop_deletes [of ?L s] obtain n1 where n1: "n1 \<le> length ?L"
        "sizeLoop ?L s = (drop n1 ?L, deleteEntries s (take n1 ?L))"
        "\<forall>i<n1. totalSize (index (deleteEntries s (take i ?L))) > maxSize (config s)"
        "n1 < length ?L \<longrightarrow> totalSize (index (deleteEntries s (take n1 ?L))) \<le> maxSize (config s)"
      by blast
    let ?s1 = "deleteEntries s (take n1 ?L)"
    have srt: "sort_key accessedAt (drop n1 ?L) = drop n1 ?L"
      by (intro sort_key_id_if_sorted) (simp add: drop_map [symmetric] sorted_wrt_drop del: drop_map)
    have me1: "0 \<le> maxEntries (config ?s1)" using me by simp
    have cl: "countLoop (drop n1 ?L) ?s1
               = Some (deleteEntries ?s1 (take (length (drop n1 ?L) - ?m) (drop n1 ?L)))"
      using countLoop_returns [OF me1, of "drop n1 ?L"] by simp
    have "enforceConstraints s = Some (deleteEntries ?s1 (take (length (drop n1 ?L) - ?m) (drop n1 ?L)))"
    proof (cases "int (length (drop n1 ?L)) > maxEntries (config s)")
      case c: True
      with True n1(2) srt cl show ?thesis
        by (simp add: enforceConstraints_def Let_def)
    next
      case c: False
      then have "length (drop n1 ?L) - ?m = 0" by simp
      with True n1(2) c show ?thesis
        by (simp add: enforceConstraints_def Let_def)
    qed
    also have "deleteEntries ?s1 (take (length (drop n1 ?L) - ?m) (drop n1 ?L))
             = deleteEntries s (take (n1 + (length ?L - n1 - ?m)) ?L)"
      by (simp add: take_add)
    finally have fin: "enforceConstraints s = Some (deleteEntries s (take (n1 + (length ?L - n1 - ?m)) ?L))" .
    from n1(1,3,4) fin show ?thesis
      unfolding lenL by (intro exI [of _ n1]) blast
  qed
qed

section \<open>The cache: an entry just stored is the last in the eviction order\<close>

text \<open>
  A key that is not yet in the index is appended to it; an entry accessed no earlier
  than all others is sorted behind them; sorting does not change the sum of the sizes.
\<close>

lemma update_fresh:
  "k \<notin> fst ` set al \<Longrightarrow> AList.update k v al = al @ [(k, v)]"
  by (induction al) auto

lemma insort_key_snoc:
  "f a \<le> f x \<Longrightarrow> insort_key f a (ys @ [x]) = insort_key f a ys @ [x]"
  by (induction ys) auto

lemma sort_key_snoc:
  "\<forall>y \<in> set xs. f y \<le> f x \<Longrightarrow> sort_key f (xs @ [x]) = sort_key f xs @ [x]"
  by (induction xs) (auto simp: insort_key_snoc)

lemma sum_list_insort_key:
  "sum_list (map h (insort_key f x xs)) = h x + sum_list (map h xs)" for h :: "'a \<Rightarrow> int"
  by (induction xs) auto

lemma sum_list_sort_key:
  "sum_list (map h (sort_key f xs)) = sum_list (map h xs)" for h :: "'a \<Rightarrow> int"
  by (induction xs) (auto simp: sum_list_insort_key)

text \<open>
  In an index whose entries carry their own keys, deleting some of the entries takes
  exactly their sizes off \<open>totalSize\<close>.
\<close>

lemma map_of_own_key:
  assumes "distinct (map fst es)" and "\<forall>(k, e) \<in> set es. key e = k" and "x \<in> snd ` set es"
  shows "map_of es (key x) = Some x"
proof -
  from assms(3) obtain k where "(k, x) \<in> set es" by force
  moreover with assms(2) have "key x = k" by auto
  ultimately show ?thesis using assms(1) by simp
qed

lemma deleteEntries_totalSize:
  assumes "distinct (map fst (entries (index s)))"
    and "\<forall>(k, e) \<in> set (entries (index s)). key e = k"
    and "distinct xs"
    and "set xs \<subseteq> snd ` set (entries (index s))"
  shows "totalSize (index (deleteEntries s xs)) = totalSize (index s) - sum_list (map (\<lambda>e. int (size_e e)) xs)"
  using assms
proof (induction xs arbitrary: s)
  case Nil
  then show ?case by simp
next
  case (Cons x xs)
  let ?s1 = "deleteEntry (key x) s"
  have x: "x \<in> snd ` set (entries (index s))" using Cons.prems(4) by simp
  have look: "map_of (entries (index s)) (key x) = Some x"
    by (rule map_of_own_key [OF Cons.prems(1,2) x])
  have ts: "totalSize (index ?s1) = totalSize (index s) - int (size_e x)"
    using look by (simp add: deleteEntry_def)
  have es: "entries (index ?s1) = AList.delete (key x) (entries (index s))"
    by (rule deleteEntry_entries)
  have d1: "distinct (map fst (entries (index ?s1)))"
    unfolding es using Cons.prems(1) by (rule distinct_delete)
  have wf1: "\<forall>(k, e) \<in> set (entries (index ?s1)). key e = k"
    unfolding es using Cons.prems(2) by (auto simp: AList.delete_eq)
  have dx: "distinct xs" using Cons.prems(3) by simp
  have sub1: "set xs \<subseteq> snd ` set (entries (index ?s1))"
  proof
    fix y assume y: "y \<in> set xs"
    with Cons.prems(4) obtain k where k: "(k, y) \<in> set (entries (index s))" by force
    with Cons.prems(2) have ky: "key y = k" by auto
    have "y \<noteq> x" using y Cons.prems(3) by auto
    have "k \<noteq> key x"
    proof
      assume "k = key x"
      with k look have "y = x"
        using Cons.prems(1) by (metis map_of_is_SomeI option.inject)
      with \<open>y \<noteq> x\<close> show False by simp
    qed
    with k have "(k, y) \<in> set (AList.delete (key x) (entries (index s)))"
      by (auto simp: AList.delete_eq)
    then show "y \<in> snd ` set (entries (index ?s1))" unfolding es by force
  qed
  have "totalSize (index (deleteEntries ?s1 xs)) = totalSize (index ?s1) - sum_list (map (\<lambda>e. int (size_e e)) xs)"
    by (rule Cons.IH [OF d1 wf1 dx sub1])
  with ts show ?case by simp
qed

text \<open>
  What a \<open>get\<close> finds after a \<open>set\<close> that has kept its entry: the entry's file, with
  the payload's content, and a hit.
\<close>

lemma get_after_set_kept:
  assumes en: "enabled (config s)"
    and src: "disk s audioFilePath = Some payload"
    and wf: "\<forall>(k', e') \<in> set (entries (index s)). filePath e' = entriesDir s @ [k', ''audio.wav'']"
    and ok: "set_cache digest jsonSize txt v audioFilePath opts now s = Some s'"
    and kept: "generateCacheKey digest txt v opts \<in> fst ` set (entries (index s'))"
    and fresh: "now' - now \<le> maxAge (config s)"
  shows "fst (get digest txt v opts now' s') = Some (entriesDir s @ [generateCacheKey digest txt v opts, ''audio.wav''])
    \<and> disk (snd (get digest txt v opts now' s')) (entriesDir s @ [generateCacheKey digest txt v opts, ''audio.wav''])
        = Some payload
    \<and> hits (getStats (snd (get digest txt v opts now' s'))) = hits (getStats s') + 1
    \<and> misses (getStats (snd (get digest txt v opts now' s'))) = misses (getStats s')"
proof -
  let ?k = "generateCacheKey digest txt v opts"
  let ?E = "entriesDir s"
  let ?p = "?E @ [?k, ''audio.wav'']"
  let ?entry = "\<lparr> key = ?k, text_e = txt, voice = v, options = opts, filePath = ?p,
                  createdAt = now, accessedAt = now, size_e = fileSize jsonSize payload \<rparr>"
  let ?s3 = "s\<lparr> disk := writeFile (?E @ [?k, ''metadata.json'']) (MetadataJson ?entry) ((disk s)(?p \<mapsto> payload)),
               index := (index s)\<lparr> entries := AList.update ?k ?entry (entries (index s)),
                                    totalSize := totalSize (index s) + int (fileSize jsonSize payload) \<rparr> \<rparr>"
  from ok en src obtain s4 where s4: "enforceConstraints ?s3 = Some s4" and s': "s' = updateStats (saveIndex s4)"
    by (auto simp: set_cache_def Let_def)
  from enforceConstraints_deletes [OF s4] obtain xs where xs: "s4 = deleteEntries ?s3 xs" by blast
  have wf3: "\<forall>(k', e') \<in> set (entries (index ?s3)). filePath e' = ?E @ [k', ''audio.wav'']"
  proof -
    have "(a, b) = (?k, ?entry) \<or> (a, b) \<in> set (entries (index s))"
      if "(a, b) \<in> set (AList.update ?k ?entry (entries (index s)))" for a b
      using that by (rule set_update_cases)
    with wf show ?thesis by fastforce
  qed
  have new3: "k \<in> fst ` set (entries (index ?s3)) \<longrightarrow>
      map_of (entries (index ?s3)) ?k = Some ?entry \<and> disk ?s3 ?p = Some payload" for k
    by (simp add: update_conv' writeFile_def)
  from deleteEntries_keeps [OF wf3 new3 [of ?k], of xs] kept xs s'
  have e4: "map_of (entries (index s4)) ?k = Some ?entry" and d4: "disk s4 ?p = Some payload"
    by (auto simp: updateStats_def saveStats_def saveIndex_def)
  have cfg: "config s' = config s"
    using s' xs by (simp add: updateStats_def saveStats_def saveIndex_def)
  have e': "map_of (entries (index s')) ?k = Some ?entry"
    using e4 s' by (simp add: updateStats_def saveStats_def saveIndex_def)
  have d': "disk s' ?p = Some payload"
    using d4 s' cfg xs
    by (simp add: updateStats_def saveStats_def saveIndex_def writeFile_def indexPath_def statsPath_def entriesDir_def)
  show ?thesis
    using en cfg e' d' fresh
    by (simp add: get_def Let_def getStats_def updateStats_def saveStats_def saveIndex_def writeFile_def
        indexPath_def statsPath_def entriesDir_def)
qed


section \<open>The cache: round trip, size accounting, eviction, expiry\<close>

text \<open>
  C1, as the claim states it, fails: a payload of four bytes under a size budget of three
  is stored and evicted by the same \<open>set\<close>, which returns normally; the \<open>get\<close> that
  follows is a miss, and it is \<open>misses\<close> that goes up. The same happens under a count
  budget of no entries at all.
\<close>

theorem cache_roundtrip_counterexample:
  "(case set_cache exDigest (\<lambda>_. 0) ''hello'' ''af_heart'' [''out.wav''] noOptions 5
           (new_CacheService (exConfig 3 10) 0 exDisk) of
      None \<Rightarrow> False
    | Some s1 \<Rightarrow> hits (stats s1) = 0 \<and> misses (stats s1) = 0
        \<and> fst (get exDigest ''hello'' ''af_heart'' noOptions 6 s1) = None
        \<and> hits (stats (snd (get exDigest ''hello'' ''af_heart'' noOptions 6 s1))) = 0
        \<and> misses (stats (snd (get exDigest ''hello'' ''af_heart'' noOptions 6 s1))) = 1)
   \<and> (case set_cache exDigest (\<lambda>_. 0) ''hello'' ''af_heart'' [''out.wav''] noOptions 5
           (new_CacheService (exConfig 100 0) 0 exDisk) of
      None \<Rightarrow> False
    | Some s1 \<Rightarrow> hits (stats s1) = 0 \<and> misses (stats s1) = 0
        \<and> fst (get exDigest ''hello'' ''af_heart'' noOptions 6 s1) = None
        \<and> hits (stats (snd (get exDigest ''hello'' ''af_heart'' noOptions 6 s1))) = 0
        \<and> misses (stats (snd (get exDigest ''hello'' ''af_heart'' noOptions 6 s1))) = 1)"
  by code_simp

text \<open>
  Two more ways for an entry to be evicted by the \<open>set\<close> that stores it, both outside
  the amended claim below. When the fingerprint is already in the index, \<open>set\<close> adds the
  new size to \<open>totalSize\<close> without taking the replaced entry's size off (C4): four bytes
  replacing four bytes count as eight against a budget of seven. And when an entry of the
  index carries an access time later than the time of the \<open>set\<close>, the new entry is not
  the most recently accessed one, and is the first to go.
\<close>

lemma roundtrip_overwrite_drift:
  "(case set_cache exDigest (\<lambda>_. 0) ''hello'' ''af_heart'' [''out.wav''] noOptions 5
           (exService 7 10 [exEntry ''hello'' 1 1 4]) of
      None \<Rightarrow> False
    | Some s1 \<Rightarrow> entries (index s1) = [] \<and> totalSize (index s1) = 4
        \<and> fst (get exDigest ''hello'' ''af_heart'' noOptions 6 s1) = None)"
  by code_simp

lemma roundtrip_clock_set_back:
  "(case set_cache exDigest (\<lambda>_. 0) ''hello'' ''af_heart'' [''out.wav''] noOptions 5
           (exService 100 1 [exEntry ''a'' 1 100 6]) of
      None \<Rightarrow> False
    | Some s1 \<Rightarrow> map fst (entries (index s1)) = [''a|af_heart'']
        \<and> fst (get exDigest ''hello'' ''af_heart'' noOptions 6 s1) = None)"
  by code_simp

text \<open>
  C1, amended. Take an enabled cache whose index is well formed: every key occurs once
  in it (it is an object), every entry is stored under its own key, its file lies in
  its own entry directory, no entry has been accessed later than the time of the \<open>set\<close>,
  and \<open>totalSize\<close> is the sum of the entries' sizes. Let the payload file exist, let its size be at most \<open>maxSize\<close>, let \<open>maxEntries\<close>
  be at least one, and let the fingerprint of text, voice and options not be in the
  index yet. Then \<open>set\<close> returns, leaving \<open>hits\<close> and \<open>misses\<close> as they were, and a
  \<open>get\<close> for the same text, voice and options, no later than \<open>maxAge\<close> after the \<open>set\<close>,
  returns the path \<open>entries/<key>/audio.wav\<close>; the file there holds what the payload
  file held; \<open>hits\<close> goes up by exactly one and \<open>misses\<close> stays. (The eviction that
  the \<open>set\<close> may cause removes older entries only: the new entry is the last in the
  order of eviction, and once all others are gone the total is the payload's size.)
\<close>

theorem cache_roundtrip:
  assumes en: "enabled (config s)"
    and src: "disk s audioFilePath = Some payload"
    and d: "distinct (map fst (entries (index s)))"
    and wf: "\<forall>(k', e') \<in> set (entries (index s)).
               key e' = k' \<and> filePath e' = entriesDir s @ [k', ''audio.wav''] \<and> accessedAt e' \<le> now"
    and tot: "totalSize (index s) = sum_list (map (\<lambda>(k', e'). int (size_e e')) (entries (index s)))"
    and new: "generateCacheKey digest txt v opts \<notin> fst ` set (entries (index s))"
    and fits: "int (fileSize jsonSize payload) \<le> maxSize (config s)"
    and one: "1 \<le> maxEntries (config s)"
    and fresh: "now' - now \<le> maxAge (config s)"
  shows "\<exists>s'. set_cache digest jsonSize txt v audioFilePath opts now s = Some s'
    \<and> hits (getStats s') = hits (getStats s) \<and> misses (getStats s') = misses (getStats s)
    \<and> fst (get digest txt v opts now' s') = Some (entriesDir s @ [generateCacheKey digest txt v opts, ''audio.wav''])
    \<and> disk (snd (get digest txt v opts now' s')) (entriesDir s @ [generateCacheKey digest txt v opts, ''audio.wav''])
        = Some payload
    \<and> hits (getStats (snd (get digest txt v opts now' s'))) = hits (getStats s') + 1
    \<and> misses (getStats (snd (get digest txt v opts now' s'))) = misses (getStats s')"
proof -
  let ?k = "generateCacheKey digest txt v opts"
  let ?E = "entriesDir s"
  let ?p = "?E @ [?k, ''audio.wav'']"
  let ?size = "fileSize jsonSize payload"
  let ?entry = "\<lparr> key = ?k, text_e = txt, voice = v, options = opts, filePath = ?p,
                  createdAt = now, accessedAt = now, size_e = ?size \<rparr>"
  let ?s3 = "s\<lparr> disk := writeFile (?E @ [?k, ''metadata.json'']) (MetadataJson ?entry) ((disk s)(?p \<mapsto> payload)),
               index := (index s)\<lparr> entries := AList.update ?k ?entry (entries (index s)),
                                    totalSize := totalSize (index s) + int ?size \<rparr> \<rparr>"
  let ?vals = "map snd (entries (index s))"
  let ?Ls = "sort_key accessedAt ?vals"
  let ?N = "length (entries (index s))"
  let ?m = "nat (maxEntries (config s))"
  have es3: "entries (index ?s3) = entries (index s) @ [(?k, ?entry)]"
    using new by (simp add: update_fresh)
  have L3: "sort_key accessedAt (map snd (entries (index ?s3))) = ?Ls @ [?entry]"
  proof -
    have "\<forall>y \<in> set ?vals. accessedAt y \<le> accessedAt ?entry" using wf by auto
    then show ?thesis unfolding es3 by (simp add: sort_key_snoc)
  qed
  have d3: "distinct (map fst (entries (index ?s3)))" using d new unfolding es3 by simp
  have wfk3: "\<forall>(k', e') \<in> set (entries (index ?s3)). key e' = k'" using wf unfolding es3 by auto
  have me3: "0 \<le> maxEntries (config ?s3)" using one by simp
  have len3: "length (entries (index ?s3)) = Suc ?N" unfolding es3 by simp
  have cfg3: "config ?s3 = config s" by simp
  from enforceConstraints_prefix [OF me3] obtain n1 where raw:
      "n1 \<le> length (entries (index ?s3))"
      "enforceConstraints ?s3
        = Some (deleteEntries ?s3 (take (n1 + (length (entries (index ?s3)) - n1 - nat (maxEntries (config ?s3))))
                                  (sort_key accessedAt (map snd (entries (index ?s3))))))"
      "\<forall>i<n1. totalSize (index (deleteEntries ?s3 (take i (sort_key accessedAt (map snd (entries (index ?s3)))))))
               > maxSize (config ?s3)"
    by blast
  have n1: "n1 \<le> Suc ?N"
      "enforceConstraints ?s3 = Some (deleteEntries ?s3 (take (n1 + (Suc ?N - n1 - ?m)) (?Ls @ [?entry])))"
      "\<forall>i<n1. totalSize (index (deleteEntries ?s3 (take i (?Ls @ [?entry])))) > maxSize (config s)"
    using raw(1) len3 apply simp
    using raw(2) apply (simp only: len3 L3 cfg3)
    using raw(3) apply (simp only: len3 L3 cfg3)
    done
  have dLs: "distinct ?Ls"
  proof -
    have eq: "map key ?vals = map fst (entries (index s))" using wf by (auto simp: map_eq_conv)
    have "distinct (map key ?vals)" unfolding eq by (rule d)
    then have "distinct ?vals" by (simp only: distinct_map)
    then show ?thesis by simp
  qed
  have subLs: "set ?Ls \<subseteq> snd ` set (entries (index ?s3))" unfolding es3 by auto
  have all: "totalSize (index (deleteEntries ?s3 ?Ls)) = int ?size"
  proof -
    have a: "totalSize (index (deleteEntries ?s3 ?Ls))
            = totalSize (index ?s3) - sum_list (map (\<lambda>e. int (size_e e)) ?Ls)"
      by (rule deleteEntries_totalSize [OF d3 wfk3 dLs subLs])
    have b: "sum_list (map (\<lambda>e. int (size_e e)) ?Ls) = sum_list (map (\<lambda>e. int (size_e e)) ?vals)"
      by (rule sum_list_sort_key)
    have "map (\<lambda>e. int (size_e e)) ?vals = map (\<lambda>(k', e'). int (size_e e')) (entries (index s))"
      by (auto simp: map_eq_conv)
    then have c: "sum_list (map (\<lambda>e. int (size_e e)) ?vals) = totalSize (index s)"
      unfolding tot by (simp only:)
    have t3: "totalSize (index ?s3) = totalSize (index s) + int ?size" by simp
    from a b c t3 show ?thesis by linarith
  qed
  have n1le: "n1 \<le> ?N"
  proof (rule ccontr)
    assume "\<not> n1 \<le> ?N"
    with n1(1) have "?N < n1" by simp
    with n1(3) have "totalSize (index (deleteEntries ?s3 (take ?N (?Ls @ [?entry])))) > maxSize (config s)"
      by blast
    then have "totalSize (index (deleteEntries ?s3 ?Ls)) > maxSize (config s)" by simp
    with all fits show False by simp
  qed
  let ?n = "n1 + (Suc ?N - n1 - ?m)"
  have nle: "?n \<le> ?N" using n1le one by auto
  then have tk: "take ?n (?Ls @ [?entry]) = take ?n ?Ls" by simp
  let ?s4 = "deleteEntries ?s3 (take ?n ?Ls)"
  have s4: "enforceConstraints ?s3 = Some ?s4" using n1(2) unfolding tk .
  have keys_old: "key ` set (take ?n ?Ls) \<subseteq> fst ` set (entries (index s))"
  proof
    fix k assume "k \<in> key ` set (take ?n ?Ls)"
    then obtain x where x: "x \<in> set (take ?n ?Ls)" "k = key x" by auto
    from x(1) have "x \<in> set ?Ls" by (rule in_set_takeD)
    then obtain k' where k': "(k', x) \<in> set (entries (index s))" by force
    with wf have "key x = k'" by auto
    with k' x(2) show "k \<in> fst ` set (entries (index s))" by force
  qed
  have kept4: "?k \<in> fst ` set (entries (index ?s4))"
  proof -
    have "?k \<notin> key ` set (take ?n ?Ls)" using keys_old new by blast
    then have "(?k, ?entry) \<in> set (filter (\<lambda>(k, e). k \<notin> key ` set (take ?n ?Ls)) (entries (index ?s3)))"
      unfolding es3 by simp
    then have "(?k, ?entry) \<in> set (entries (index ?s4))" by (simp only: deleteEntries_entries)
    then show ?thesis by force
  qed
  let ?s' = "updateStats (saveIndex ?s4)"
  have set: "set_cache digest jsonSize txt v audioFilePath opts now s = Some ?s'"
    using en src s4 by (simp add: set_cache_def Let_def)
  have kept: "?k \<in> fst ` set (entries (index ?s'))"
    using kept4 by (simp add: updateStats_def saveStats_def saveIndex_def)
  have wff: "\<forall>(k', e') \<in> set (entries (index s)). filePath e' = entriesDir s @ [k', ''audio.wav'']"
    using wf by auto
  have st: "hits (getStats ?s') = hits (getStats s)" "misses (getStats ?s') = misses (getStats s)"
    by (simp_all add: getStats_def updateStats_def saveStats_def saveIndex_def)
  note g = get_after_set_kept [OF en src wff set kept fresh]
  from set st g show ?thesis by blast
qed

theorem cache_roundtrip_witness:
  "enabled (config exTight)
   \<and> disk exTight [''out.wav''] = Some (Bytes [1, 2, 3, 4])
   \<and> map fst (entries (index exTight)) = [''a|af_heart'']
   \<and> map (\<lambda>(k, e). key e) (entries (index exTight)) = [''a|af_heart'']
   \<and> map (\<lambda>(k, e). filePath e) (entries (index exTight)) = [[''cache'', ''entries'', ''a|af_heart'', ''audio.wav'']]
   \<and> entriesDir exTight = [''cache'', ''entries'']
   \<and> map (\<lambda>(k, e). accessedAt e) (entries (index exTight)) = [1]
   \<and> map (\<lambda>(k, e). size_e e) (entries (index exTight)) = [6]
   \<and> totalSize (index exTight) = 6
   \<and> generateCacheKey exDigest ''hello'' ''af_heart'' noOptions = ''hello|af_heart''
   \<and> int (fileSize (\<lambda>_. 0) (Bytes [1, 2, 3, 4])) = 4
   \<and> maxSize (config exTight) = 9
   \<and> maxEntries (config exTight) = 10
   \<and> maxAge (config exTight) = 1000
   \<and> set_cache exDigest (\<lambda>_. 0) ''hello'' ''af_heart'' [''out.wav''] noOptions 5 exTight \<noteq> None
   \<and> map fst (entries (index (the (set_cache exDigest (\<lambda>_. 0) ''hello'' ''af_heart'' [''out.wav''] noOptions 5 exTight))))
        = [''hello|af_heart'']
   \<and> fst (get exDigest ''hello'' ''af_heart'' noOptions 6
        (the (set_cache exDigest (\<lambda>_. 0) ''hello'' ''af_heart'' [''out.wav''] noOptions 5 exTight)))
       = Some [''cache'', ''entries'', ''hello|af_heart'', ''audio.wav'']
   \<and> disk (snd (get exDigest ''hello'' ''af_heart'' noOptions 6
        (the (set_cache exDigest (\<lambda>_. 0) ''hello'' ''af_heart'' [''out.wav''] noOptions 5 exTight))))
        [''cache'', ''entries'', ''hello|af_heart'', ''audio.wav''] = Some (Bytes [1, 2, 3, 4])
   \<and> hits (getStats (snd (get exDigest ''hello'' ''af_heart'' noOptions 6
        (the (set_cache exDigest (\<lambda>_. 0) ''hello'' ''af_heart'' [''out.wav''] noOptions 5 exTight)))))
       = hits (getStats exTight) + 1
   \<and> misses (getStats (snd (get exDigest ''hello'' ''af_heart'' noOptions 6
        (the (set_cache exDigest (\<lambda>_. 0) ''hello'' ''af_heart'' [''out.wav''] noOptions 5 exTight)))))
       = misses (getStats exTight)"
proof -
  let ?set = "set_cache exDigest (\<lambda>_. 0) ''hello'' ''af_heart'' [''out.wav''] noOptions 5 exTight"
  let ?k = "generateCacheKey exDigest ''hello'' ''af_heart'' noOptions"
  let ?get = "get exDigest ''hello'' ''af_heart'' noOptions 6 (the ?set)"
  have es: "entries (index exTight) = [exEntry ''a'' 1 1 6]"
    by (simp add: exTight_def exService_def)
  have cf: "config exTight = exConfig 9 10" by (simp add: exTight_def exService_def)
  have h1: "enabled (config exTight)" by (simp add: cf exConfig_def)
  have h2: "disk exTight [''out.wav''] = Some (Bytes [1, 2, 3, 4])"
    by (simp add: exTight_def exService_def exDisk_def exEntry_def)
  have c1: "map fst (entries (index exTight)) = [''a|af_heart'']" by (simp add: es exEntry_def)
  have c2: "map (\<lambda>(k, e). key e) (entries (index exTight)) = [''a|af_heart'']" by (simp add: es exEntry_def)
  have c3: "map (\<lambda>(k, e). filePath e) (entries (index exTight)) = [[''cache'', ''entries'', ''a|af_heart'', ''audio.wav'']]"
    by (simp add: es exEntry_def)
  have c4: "entriesDir exTight = [''cache'', ''entries'']" by (simp add: entriesDir_def cf exConfig_def)
  have c5: "map (\<lambda>(k, e). accessedAt e) (entries (index exTight)) = [1]" by (simp add: es exEntry_def)
  have c6: "map (\<lambda>(k, e). size_e e) (entries (index exTight)) = [6]" by (simp add: es exEntry_def)
  have c7: "totalSize (index exTight) = 6" by (simp add: exTight_def exService_def exEntry_def)
  have c8: "?k = ''hello|af_heart''" by (simp add: generateCacheKey_def exDigest_def noOptions_def)
  have c9: "int (fileSize (\<lambda>_. 0) (Bytes [1, 2, 3, 4])) = 4" by (simp add: fileSize_def)
  have c10: "maxSize (config exTight) = 9" by (simp add: cf exConfig_def)
  have c11: "maxEntries (config exTight) = 10" by (simp add: cf exConfig_def)
  have c12: "maxAge (config exTight) = 1000" by (simp add: cf exConfig_def)
  have h3: "distinct (map fst (entries (index exTight)))" unfolding c1 by simp
  have h4: "\<forall>(k', e') \<in> set (entries (index exTight)).
              key e' = k' \<and> filePath e' = entriesDir exTight @ [k', ''audio.wav''] \<and> accessedAt e' \<le> 5"
    unfolding c4 by (simp add: es exEntry_def)
  have h5: "totalSize (index exTight) = sum_list (map (\<lambda>(k', e'). int (size_e e')) (entries (index exTight)))"
    unfolding c7 by (simp add: es exEntry_def)
  have h6: "?k \<notin> fst ` set (entries (index exTight))" unfolding c8 by (simp add: es exEntry_def)
  have h7: "int (fileSize (\<lambda>_. 0) (Bytes [1, 2, 3, 4])) \<le> maxSize (config exTight)" unfolding c9 c10 by simp
  have h8: "1 \<le> maxEntries (config exTight)" unfolding c11 by simp
  have h9: "6 - 5 \<le> maxAge (config exTight)" unfolding c12 by simp
  note r = cache_roundtrip [OF h1 h2 h3 h4 h5 h6 h7 h8 h9, unfolded c4 c8]
  from r obtain s' where s': "?set = Some s'"
      and g1: "fst (get exDigest ''hello'' ''af_heart'' noOptions 6 s') = Some ([''cache'', ''entries''] @ [''hello|af_heart'', ''audio.wav''])"
      and g2: "disk (snd (get exDigest ''hello'' ''af_heart'' noOptions 6 s')) ([''cache'', ''entries''] @ [''hello|af_heart'', ''audio.wav'']) = Some (Bytes [1, 2, 3, 4])"
      and g3: "hits (getStats (snd (get exDigest ''hello'' ''af_heart'' noOptions 6 s'))) = hits (getStats s') + 1"
      and g4: "misses (getStats (snd (get exDigest ''hello'' ''af_heart'' noOptions 6 s'))) = misses (getStats s')"
      and g5: "hits (getStats s') = hits (getStats exTight)"
      and g6: "misses (getStats s') = misses (getStats exTight)"
    by blast
  from s' have the: "the ?set = s'" by simp
  from s' have ret: "?set \<noteq> None" by simp
  have keys: "map fst (entries (index (the ?set))) = [''hello|af_heart'']" by code_simp
  have r1: "fst ?get = Some [''cache'', ''entries'', ''hello|af_heart'', ''audio.wav'']"
    using g1 unfolding the by simp
  have r2: "disk (snd ?get) [''cache'', ''entries'', ''hello|af_heart'', ''audio.wav''] = Some (Bytes [1, 2, 3, 4])"
    using g2 unfolding the by simp
  have r3: "hits (getStats (snd ?get)) = hits (getStats exTight) + 1"
    using g3 g5 unfolding the by simp
  have r4: "misses (getStats (snd ?get)) = misses (getStats exTight)"
    using g4 g6 unfolding the by simp
  from h1 h2 c1 c2 c3 c4 c5 c6 c7 c8 c9 c10 c11 c12 ret keys r1 r2 r3 r4 show ?thesis
    by (intro conjI) assumption+
qed

text \<open>
  C4. The index's \<open>totalSize\<close> is not always the sum of its entries' sizes: after two
  \<open>set\<close>s of the same text, voice and options with a payload of four bytes, one entry
  of size 4 is in the index and \<open>totalSize\<close> is 8. The second \<open>set\<close> adds the new size
  without taking the replaced entry's size off.
\<close>

theorem set_overwrite_totalSize:
  "(case set_cache exDigest (\<lambda>_. 0) ''hello'' ''af_heart'' [''out.wav''] noOptions 5
           (new_CacheService (exConfig 100 10) 0 exDisk) of
      None \<Rightarrow> False
    | Some s1 \<Rightarrow>
       (case set_cache exDigest (\<lambda>_. 0) ''hello'' ''af_heart'' [''out.wav''] noOptions 6 s1 of
          None \<Rightarrow> False
        | Some s2 \<Rightarrow> map (\<lambda>(k, e). size_e e) (entries (index s2)) = [4] \<and> totalSize (index s2) = 8))"
  by code_simp

text \<open>
  C5, as the claim states it, fails: with a size budget of 12 and a count budget of one
  entry, a \<open>set\<close> that brings the total to 13 removes the oldest entry (leaving 7, within
  the size budget) and then the next one as well, for the count budget: the entry of
  size 3 is gone although the total with it was within the size budget.
\<close>

theorem eviction_counterexample:
  "(case set_cache exDigest (\<lambda>_. 0) ''c'' ''af_heart'' [''out.wav''] noOptions 3
           (exService 12 1 [exEntry ''a'' 1 1 6, exEntry ''b'' 2 2 3]) of
      None \<Rightarrow> False
    | Some s1 \<Rightarrow> map fst (entries (index s1)) = [''c|af_heart''] \<and> totalSize (index s1) = 4
        \<and> totalSize (index s1) + int (size_e (snd (exEntry ''b'' 2 2 3))) \<le> maxSize (config s1))"
  by code_simp

text \<open>
  C5, amended. With a count budget that is not negative and an index whose entries
  carry their own keys, \<open>enforceConstraints\<close> returns, and what it does is to delete the
  first \<open>n\<close> entries of the index sorted by \<open>accessedAt\<close> (ties in index order), one
  after the other in that order, the other entries staying. So no entry is removed while
  a strictly less recently accessed one remains. Every removal is forced by one of the
  two budgets (before it, \<open>totalSize\<close> exceeds \<open>maxSize\<close> or more than \<open>maxEntries\<close>
  entries are left), and when entries remain, both budgets are met: removal stops as
  soon as \<open>totalSize \<le> maxSize\<close> and the number of entries left is at most
  \<open>maxEntries\<close>.
\<close>

theorem enforceConstraints_lru:
  assumes me: "0 \<le> maxEntries (config s)"
    and d: "distinct (map fst (entries (index s)))"
    and wf: "\<forall>(k, e) \<in> set (entries (index s)). key e = k"
  shows "\<exists>n \<le> length (entries (index s)).
      (let lru = sort_key accessedAt (map snd (entries (index s)));
           after = deleteEntries s (take n lru)
       in enforceConstraints s = Some after
        \<and> map snd (entries (index after)) = filter (\<lambda>e. e \<notin> set (take n lru)) (map snd (entries (index s)))
        \<and> (\<forall>i<n. \<forall>e \<in> set (drop i lru). accessedAt (lru ! i) \<le> accessedAt e)
        \<and> (\<forall>e \<in> set (take n lru). \<forall>e' \<in> snd ` set (entries (index after)). accessedAt e \<le> accessedAt e')
        \<and> (\<forall>i<n. totalSize (index (deleteEntries s (take i lru))) > maxSize (config s)
                 \<or> int (length lru - i) > maxEntries (config s))
        \<and> (n < length lru \<longrightarrow> totalSize (index after) \<le> maxSize (config s)
                                \<and> int (length lru - n) \<le> maxEntries (config s)))"
proof -
  let ?es = "map snd (entries (index s))"
  let ?L = "sort_key accessedAt ?es"
  let ?m = "nat (maxEntries (config s))"
  let ?N = "length (entries (index s))"
  have lenL: "length ?L = ?N" by simp
  from enforceConstraints_prefix [OF me] obtain n1 where n1: "n1 \<le> ?N"
      "enforceConstraints s = Some (deleteEntries s (take (n1 + (?N - n1 - ?m)) ?L))"
      "\<forall>i<n1. totalSize (index (deleteEntries s (take i ?L))) > maxSize (config s)"
      "n1 < ?N \<longrightarrow> totalSize (index (deleteEntries s (take n1 ?L))) \<le> maxSize (config s)"
    by blast
  let ?n = "n1 + (?N - n1 - ?m)"
  let ?after = "deleteEntries s (take ?n ?L)"
  have nle: "?n \<le> ?N" using n1(1) by simp
  have vals: "map snd (entries (index ?after)) = filter (\<lambda>e. e \<notin> set (take ?n ?L)) ?es"
  proof (rule deleteEntries_values [OF d wf])
    have "set (take ?n ?L) \<subseteq> set ?L" by (rule set_take_subset)
    then show "set (take ?n ?L) \<subseteq> snd ` set (entries (index s))" by simp
  qed
  have lru: "\<forall>i<?n. \<forall>e \<in> set (drop i ?L). accessedAt (?L ! i) \<le> accessedAt e"
  proof (intro allI impI ballI)
    fix i e assume "i < ?n" and e: "e \<in> set (drop i ?L)"
    with nle have "i < length ?L" by simp
    with e show "accessedAt (?L ! i) \<le> accessedAt e"
      by (intro sorted_map_nth_drop [where f = accessedAt]) simp_all
  qed
  have older: "\<forall>e \<in> set (take ?n ?L). \<forall>e' \<in> snd ` set (entries (index ?after)). accessedAt e \<le> accessedAt e'"
  proof (intro ballI)
    fix e e' assume e: "e \<in> set (take ?n ?L)" and e': "e' \<in> snd ` set (entries (index ?after))"
    from e obtain i where i: "i < ?n" "i < length ?L" "e = ?L ! i"
      by (auto simp: in_set_conv_nth)
    from e' have "e' \<in> set (map snd (entries (index ?after)))" by simp
    then have "e' \<in> set ?L" "e' \<notin> set (take ?n ?L)" unfolding vals by auto
    moreover have "set ?L = set (take ?n ?L) \<union> set (drop ?n ?L)"
      by (metis append_take_drop_id set_append)
    ultimately have "e' \<in> set (drop ?n ?L)" by blast
    moreover have "set (drop ?n ?L) \<subseteq> set (drop i ?L)"
      using i(1) by (intro set_drop_subset_set_drop) simp
    ultimately have "e' \<in> set (drop i ?L)" by blast
    with lru i show "accessedAt e \<le> accessedAt e'" by blast
  qed
  have forced: "\<forall>i<?n. totalSize (index (deleteEntries s (take i ?L))) > maxSize (config s)
                 \<or> int (length ?L - i) > maxEntries (config s)"
  proof (intro allI impI)
    fix i assume i: "i < ?n"
    show "totalSize (index (deleteEntries s (take i ?L))) > maxSize (config s)
                 \<or> int (length ?L - i) > maxEntries (config s)"
    proof (cases "i < n1")
      case True
      with n1(3) show ?thesis by simp
    next
      case False
      with i me have "int (?N - i) > maxEntries (config s)" by simp
      then show ?thesis by (simp only: lenL) simp
    qed
  qed
  have stop: "?n < length ?L \<longrightarrow> totalSize (index ?after) \<le> maxSize (config s)
                                \<and> int (length ?L - ?n) \<le> maxEntries (config s)"
  proof
    assume lt: "?n < length ?L"
    then have n1lt: "n1 < ?N" by simp
    have "?after = deleteEntries (deleteEntries s (take n1 ?L)) (take (?N - n1 - ?m) (drop n1 ?L))"
      by (simp add: take_add)
    then have "totalSize (index ?after) \<le> totalSize (index (deleteEntries s (take n1 ?L)))"
      by (simp only: deleteEntries_totalSize_le)
    also have "\<dots> \<le> maxSize (config s)" using n1(4) n1lt by simp
    finally have a: "totalSize (index ?after) \<le> maxSize (config s)" .
    have b: "int (length ?L - ?n) \<le> maxEntries (config s)"
      using me by auto
    from a b show "totalSize (index ?after) \<le> maxSize (config s)
                                \<and> int (length ?L - ?n) \<le> maxEntries (config s)" ..
  qed
  from nle n1(2) vals lru older forced stop show ?thesis
    unfolding Let_def by (intro exI [of _ ?n] conjI) assumption+
qed

theorem enforceConstraints_lru_witness:
  "0 \<le> maxEntries (config exFull)
   \<and> distinct (map fst (entries (index exFull)))
   \<and> map (\<lambda>(k, e). key e) (entries (index exFull)) = map fst (entries (index exFull))
   \<and> (\<exists>n \<le> length (entries (index exFull)).
      (let lru = sort_key accessedAt (map snd (entries (index exFull)));
           after = deleteEntries exFull (take n lru)
       in enforceConstraints exFull = Some after
        \<and> map snd (entries (index after)) = filter (\<lambda>e. e \<notin> set (take n lru)) (map snd (entries (index exFull)))
        \<and> (\<forall>i<n. \<forall>e \<in> set (drop i lru). accessedAt (lru ! i) \<le> accessedAt e)
        \<and> (\<forall>e \<in> set (take n lru). \<forall>e' \<in> snd ` set (entries (index after)). accessedAt e \<le> accessedAt e')
        \<and> (\<forall>i<n. totalSize (index (deleteEntries exFull (take i lru))) > maxSize (config exFull)
                 \<or> int (length lru - i) > maxEntries (config exFull))
        \<and> (n < length lru \<longrightarrow> totalSize (index after) \<le> maxSize (config exFull)
                                \<and> int (length lru - n) \<le> maxEntries (config exFull))))
   \<and> map fst (entries (index (the (enforceConstraints exFull)))) = [''c|af_heart'']"
proof -
  have h1: "0 \<le> maxEntries (config exFull)" by (simp add: exFull_def exService_def exConfig_def)
  have h2: "distinct (map fst (entries (index exFull)))" by (simp add: exFull_def exService_def exEntry_def)
  have h3': "map (\<lambda>(k, e). key e) (entries (index exFull)) = map fst (entries (index exFull))"
    by (simp add: exFull_def exService_def exEntry_def)
  have h3: "\<forall>(k, e) \<in> set (entries (index exFull)). key e = k"
    by (simp add: exFull_def exService_def exEntry_def)
  have c: "map fst (entries (index (the (enforceConstraints exFull)))) = [''c|af_heart'']"
    by code_simp
  from enforceConstraints_lru [OF h1 h2 h3] h1 h2 h3' c show ?thesis
    by (intro conjI) assumption+
qed

text \<open>
  C6, as the claim states it, fails: \<open>getStats().totalEntries\<close> need not be the number
  of entries in the index. After \<open>initialize\<close> has loaded the snapshots of an earlier
  run and swept the entry that had expired, the statistics still say 2 while the index
  holds 1; the \<open>get\<close> of that last entry, now expired, brings \<open>totalEntries\<close> to 0,
  which is two less than before.
\<close>

theorem expired_get_counterexample:
  "totalEntries (getStats (initialize 1500 (new_CacheService (exConfig 100 10) 1500 exOldDisk))) = 2
   \<and> map (\<lambda>(k, e). (k, createdAt e))
         (entries (index (initialize 1500 (new_CacheService (exConfig 100 10) 1500 exOldDisk))))
        = [(''b|af_heart'', 500)]
   \<and> fst (get exDigest ''b'' ''af_heart'' noOptions 1501
            (initialize 1500 (new_CacheService (exConfig 100 10) 1500 exOldDisk))) = None
   \<and> totalEntries (getStats (snd (get exDigest ''b'' ''af_heart'' noOptions 1501
        (initialize 1500 (new_CacheService (exConfig 100 10) 1500 exOldDisk))))) = 0"
  by code_simp

text \<open>
  C6, amended. On an enabled cache, a \<open>get\<close> for a key whose entry is older than
  \<open>maxAge\<close> returns \<open>null\<close>, removes the entry from the index (which has one entry
  less), adds one to \<open>misses\<close> and leaves \<open>hits\<close>; afterwards
  \<open>getStats().totalEntries\<close> is one less than the number of entries the index had
  before the \<open>get\<close>.
\<close>

theorem expired_get:
  assumes "enabled (config s)"
    and "distinct (map fst (entries (index s)))"
    and "map_of (entries (index s)) (generateCacheKey digest txt v opts) = Some e"
    and "now - createdAt e > maxAge (config s)"
  shows "fst (get digest txt v opts now s) = None
    \<and> map_of (entries (index (snd (get digest txt v opts now s)))) (generateCacheKey digest txt v opts) = None
    \<and> Suc (length (entries (index (snd (get digest txt v opts now s))))) = length (entries (index s))
    \<and> misses (getStats (snd (get digest txt v opts now s))) = misses (getStats s) + 1
    \<and> hits (getStats (snd (get digest txt v opts now s))) = hits (getStats s)
    \<and> Suc (totalEntries (getStats (snd (get digest txt v opts now s)))) = length (entries (index s))"
proof -
  let ?k = "generateCacheKey digest txt v opts"
  let ?s1 = "deleteEntry ?k s"
  have g: "get digest txt v opts now s
         = (None, updateStats (?s1\<lparr> stats := (stats ?s1)\<lparr> misses := misses (stats ?s1) + 1 \<rparr> \<rparr>))"
    using assms by (simp add: get_def Let_def)
  have len: "Suc (length (AList.delete ?k (entries (index s)))) = length (entries (index s))"
    using assms(2,3) by (rule length_delete_distinct)
  have gone: "map_of (AList.delete ?k (entries (index s))) ?k = None"
    by (simp add: delete_conv)
  show ?thesis
    unfolding g using len gone
    by (simp add: updateStats_def saveStats_def getStats_def deleteEntry_entries)
qed

theorem expired_get_witness:
  "enabled (config (exService 100 10 [exEntry ''b'' 500 500 4]))
   \<and> distinct (map fst (entries (index (exService 100 10 [exEntry ''b'' 500 500 4]))))
   \<and> map_of (entries (index (exService 100 10 [exEntry ''b'' 500 500 4]))) (generateCacheKey exDigest ''b'' ''af_heart'' noOptions)
       = Some (snd (exEntry ''b'' 500 500 4))
   \<and> 1501 - createdAt (snd (exEntry ''b'' 500 500 4)) > maxAge (config (exService 100 10 [exEntry ''b'' 500 500 4]))
   \<and> fst (get exDigest ''b'' ''af_heart'' noOptions 1501 (exService 100 10 [exEntry ''b'' 500 500 4])) = None
   \<and> entries (index (snd (get exDigest ''b'' ''af_heart'' noOptions 1501 (exService 100 10 [exEntry ''b'' 500 500 4])))) = []
   \<and> misses (getStats (snd (get exDigest ''b'' ''af_heart'' noOptions 1501 (exService 100 10 [exEntry ''b'' 500 500 4])))) = 1
   \<and> hits (getStats (snd (get exDigest ''b'' ''af_heart'' noOptions 1501 (exService 100 10 [exEntry ''b'' 500 500 4])))) = 0
   \<and> totalEntries (getStats (snd (get exDigest ''b'' ''af_heart'' noOptions 1501 (exService 100 10 [exEntry ''b'' 500 500 4])))) = 0"
proof -
  let ?S = "exService 100 10 [exEntry ''b'' 500 500 4]"
  have h1: "enabled (config ?S)" by (simp add: exService_def exConfig_def)
  have h2: "distinct (map fst (entries (index ?S)))" by (simp add: exService_def)
  have h3: "map_of (entries (index ?S)) (generateCacheKey exDigest ''b'' ''af_heart'' noOptions)
       = Some (snd (exEntry ''b'' 500 500 4))"
    by (simp add: exService_def exEntry_def generateCacheKey_def exDigest_def)
  have h4: "1501 - createdAt (snd (exEntry ''b'' 500 500 4)) > maxAge (config ?S)"
    by (simp add: exService_def exConfig_def exEntry_def)
  from expired_get [OF h1 h2 h3 h4] h1 h2 h3 h4 show ?thesis
    by (simp add: exService_def getStats_def emptyStats_def)
qed

end
